theory Spec2Isabelle
  imports Main
begin

section \<open>Streaming run orchestration of \<open>src/routes/llm.js\<close>\<close>

text \<open>
  The development embeds the second revision of \<open>routes/llm.js\<close> (the one with
  \<open>cancelActiveRuns\<close>, \<open>retrieveRunUsageWithRetry\<close> and the run-id capture in
  \<open>handleStream\<close>).

  Conventions of the embedding.
  \<^item> A JavaScript string field that may be absent is a \<open>string\<close>; the empty string
    stands for both \<open>undefined\<close> and \<open>''\<close>, which the source never tells apart
    (it only tests truthiness).
  \<^item> A thrown value is represented by its \<open>message\<close>: \<open>Some m\<close> when the message
    is a string, \<open>None\<close> otherwise.
  \<^item> \<open>await\<close> is sequential composition; every provider call takes the provider
    state and returns the next one.
\<close>

subsection \<open>JavaScript values\<close>

type_synonym js_error = "string option"

text \<open>Truthiness of a nullable string: \<open>null\<close>, \<open>undefined\<close> and \<open>''\<close> are falsy.\<close>

definition truthy :: "string option \<Rightarrow> bool" where
  "truthy v = (case v of None \<Rightarrow> False | Some s \<Rightarrow> s \<noteq> [])"

text \<open>\<open>s.startsWith(p)\<close>.\<close>

definition startsWith :: "string \<Rightarrow> string \<Rightarrow> bool" where
  "startsWith s p = (take (length p) s = p)"

text \<open>
  A JavaScript array with holes is a list of options. Reading past the end gives
  \<open>undefined\<close>; writing past the end extends the array with holes.
\<close>

definition js_get :: "'a option list \<Rightarrow> nat \<Rightarrow> 'a option" where
  "js_get xs i = (if i < length xs then xs ! i else None)"

definition js_set :: "'a option list \<Rightarrow> nat \<Rightarrow> 'a \<Rightarrow> 'a option list" where
  "js_set xs i v =
     (if i < length xs then xs[i := Some v]
      else xs @ replicate (i - length xs) None @ [Some v])"

subsection \<open>Provider events and client frames\<close>

record usage =
  prompt_tokens :: nat
  completion_tokens :: nat

text \<open>One element of \<open>delta.step_details.tool_calls\<close>.\<close>

record tool_call_delta =
  d_index :: nat
  d_type :: string
  d_id :: string
  d_name :: string
  d_arguments :: string

text \<open>An accumulator slot \<open>{ id, type, function: { name, arguments } }\<close>.\<close>

record tool_call =
  call_id :: string
  call_type :: string
  fn_name :: string
  fn_arguments :: string

text \<open>\<open>event.data.delta.content?.[0]\<close> of a message delta.\<close>

record content_part =
  part_type :: string
  text_value :: string

record step_details =
  sd_type :: string
  sd_tool_calls :: "tool_call_delta list"

text \<open>
  The fields of a provider event that \<open>handleStream\<close> reads. \<open>event.data\<close> is an
  object on every event and \<open>event.data.delta\<close> is an object on the two delta events,
  as in the provider's event vocabulary.
\<close>

record event =
  event_name :: string
  data_id :: string
  data_run_id :: string
  delta_content0 :: "content_part option"
  delta_step_details :: "step_details option"
  data_usage :: "usage option"
  last_error_message :: string

text \<open>
  The provider's async iterable: the events it yields, then either a normal end
  (\<open>None\<close>) or a fault thrown by the iterator (\<open>Some e\<close>).
\<close>

record event_stream =
  events :: "event list"
  fault :: "js_error option"

datatype frame =
    FText string
  | FToolCalls string "tool_call list"
  | FDone string
  | FError js_error

text \<open>
  The JSON bodies of the synchronous replies: \<open>{ error, message }\<close> (the message may
  be absent) and \<open>{ success: true }\<close>.
\<close>

datatype json_reply =
    ErrorReply string "string option"
  | SuccessReply

text \<open>The HTTP response object \<open>res\<close>.\<close>

record response =
  headersSent :: bool
  statusCode :: nat
  jsonBody :: "json_reply option"
  frames :: "frame list"
  ended :: bool

definition res_init :: response where
  "res_init = \<lparr>headersSent = False, statusCode = 200, jsonBody = None, frames = [], ended = False\<rparr>"

definition res_write :: "frame \<Rightarrow> response \<Rightarrow> response" where
  "res_write f res = res\<lparr>headersSent := True, frames := frames res @ [f]\<rparr>"

definition res_end :: "response \<Rightarrow> response" where
  "res_end res = res\<lparr>headersSent := True, ended := True\<rparr>"

definition res_flushHeaders :: "response \<Rightarrow> response" where
  "res_flushHeaders res = res\<lparr>headersSent := True\<rparr>"

text \<open>\<open>res.status(code).json(body)\<close>.\<close>

definition res_json :: "nat \<Rightarrow> json_reply \<Rightarrow> response \<Rightarrow> response" where
  "res_json code body res =
     res\<lparr>headersSent := True, statusCode := code, jsonBody := Some body, ended := True\<rparr>"

subsection \<open>The stream relay \<open>handleStream\<close>\<close>

text \<open>
  The body of the loop over \<open>delta.step_details.tool_calls\<close>, in two parts:
  \<open>mergeFragment\<close> computes the slot object after the four statements of the body
  from the slot found at \<open>toolCalls[tc.index]\<close> (created when that is a hole), and
  \<open>accumulate\<close> stores it back.
\<close>

definition mergeFragment :: "tool_call option \<Rightarrow> tool_call_delta \<Rightarrow> tool_call" where
  "mergeFragment slot tc =
     (let slot0 = (case slot of
                     None \<Rightarrow> \<lparr>call_id = d_id tc, call_type = ''function'',
                              fn_name = [], fn_arguments = []\<rparr>
                   | Some s \<Rightarrow> s);
          slot1 = (if d_name tc \<noteq> [] then slot0\<lparr>fn_name := fn_name slot0 @ d_name tc\<rparr>
                   else slot0);
          slot2 = (if d_arguments tc \<noteq> []
                   then slot1\<lparr>fn_arguments := fn_arguments slot1 @ d_arguments tc\<rparr>
                   else slot1)
      in if d_id tc \<noteq> [] then slot2\<lparr>call_id := d_id tc\<rparr> else slot2)"

definition accumulate :: "tool_call option list \<Rightarrow> tool_call_delta \<Rightarrow> tool_call option list" where
  "accumulate toolCalls tc =
     (if d_type tc = ''function''
      then js_set toolCalls (d_index tc) (mergeFragment (js_get toolCalls (d_index tc)) tc)
      else toolCalls)"

record stream_state =
  runId :: string
  toolCalls :: "tool_call option list"
  inputTokens :: nat
  outputTokens :: nat
  streamError :: "string option"

definition stream_init :: stream_state where
  "stream_init = \<lparr>runId = [], toolCalls = [], inputTokens = 0, outputTokens = 0, streamError = None\<rparr>"

text \<open>
  The run-id capture at the head of the loop body. The source's \<open>else if\<close> branch
  tests \<open>!runId\<close> where \<open>runId\<close> is known to be non-empty, so it never assigns.
\<close>

definition captureRunId :: "stream_state \<Rightarrow> event \<Rightarrow> stream_state" where
  "captureRunId st ev =
     (if runId st = [] then
        (if data_id ev \<noteq> [] \<and> startsWith (event_name ev) ''thread.run.''
         then st\<lparr>runId := data_id ev\<rparr>
         else if data_run_id ev \<noteq> [] then st\<lparr>runId := data_run_id ev\<rparr>
         else st)
      else st)"

definition captureUsage :: "stream_state \<Rightarrow> event \<Rightarrow> stream_state" where
  "captureUsage st ev =
     (case data_usage ev of
        None \<Rightarrow> st
      | Some u \<Rightarrow> st\<lparr>inputTokens := prompt_tokens u, outputTokens := completion_tokens u\<rparr>)"

text \<open>One iteration of \<open>for await (const event of stream)\<close>.\<close>

definition handleEvent :: "stream_state \<times> response \<Rightarrow> event \<Rightarrow> stream_state \<times> response" where
  "handleEvent sr ev =
     (let st = captureRunId (fst sr) ev; res = snd sr in
      if event_name ev = ''thread.message.delta'' then
        (case delta_content0 ev of
           Some d \<Rightarrow>
             if part_type d = ''text'' \<and> text_value d \<noteq> []
             then (st, res_write (FText (text_value d)) res)
             else (st, res)
         | None \<Rightarrow> (st, res))
      else if event_name ev = ''thread.run.step.delta'' then
        (case delta_step_details ev of
           Some sd \<Rightarrow>
             if sd_type sd = ''tool_calls''
             then (st\<lparr>toolCalls := foldl accumulate (toolCalls st) (sd_tool_calls sd)\<rparr>, res)
             else (st, res)
         | None \<Rightarrow> (st, res))
      else if event_name ev = ''thread.run.requires_action'' then
        (captureUsage (st\<lparr>runId := data_id ev\<rparr>) ev, res)
      else if event_name ev = ''thread.run.completed'' then
        (captureUsage (st\<lparr>runId := data_id ev\<rparr>) ev, res)
      else if event_name ev = ''thread.run.failed'' then
        (st\<lparr>runId := data_id ev,
            streamError := Some (if last_error_message ev \<noteq> [] then last_error_message ev
                                 else ''Run failed'')\<rparr>, res)
      else (st, res))"

text \<open>\<open>toolCalls.filter(t => t && t.id)\<close>.\<close>

definition finalToolCalls :: "tool_call option list \<Rightarrow> tool_call list" where
  "finalToolCalls tcs =
     List.map_filter (\<lambda>t. case t of None \<Rightarrow> None
                                 | Some c \<Rightarrow> if call_id c \<noteq> [] then Some c else None) tcs"

record stream_result =
  res_runId :: string
  res_inputTokens :: nat
  res_outputTokens :: nat
  toolCallCount :: nat
  res_error :: "string option"

definition handleStream :: "event_stream \<Rightarrow> response \<Rightarrow> stream_result \<times> response" where
  "handleStream stream res =
     (let (st, res1) = foldl handleEvent (stream_init, res) (events stream) in
      case fault stream of
        None \<Rightarrow>
          (let final = finalToolCalls (toolCalls st);
               res2 = (if length final > 0 then res_write (FToolCalls (runId st) final) res1
                       else res1);
               res3 = res_end (res_write (FDone (runId st)) res2)
           in (\<lparr>res_runId = runId st, res_inputTokens = inputTokens st,
                 res_outputTokens = outputTokens st, toolCallCount = length final,
                 res_error = streamError st\<rparr>, res3))
      | Some err \<Rightarrow>
          (let res2 = res_end (res_write (FError err) res1)
           in (\<lparr>res_runId = runId st, res_inputTokens = inputTokens st,
                 res_outputTokens = outputTokens st,
                 toolCallCount = length (finalToolCalls (toolCalls st)),
                 res_error = err\<rparr>, res2)))"

subsection \<open>The provider client\<close>

record run =
  run_id :: string
  run_status :: string
  run_usage :: "usage option"

type_synonym tool_output = "string \<times> string"

text \<open>
  The calls a request makes, in the order it makes them: the provider calls with their
  arguments, the \<open>setTimeout\<close> pauses with their length in milliseconds, and the
  operator diagnostic of \<open>retrieveRunUsageWithRetry\<close>.
\<close>

datatype call =
    CallList string nat
  | CallCancel string string
  | CallRetrieve string string
  | CallCreateMessage string string
  | CallStream string string
  | CallSubmitToolOutputs string string "tool_output list"
  | CallSleep nat
  | WarnUsageMissing string string

text \<open>
  The provider is a state machine of an arbitrary state type \<open>'p\<close>: each method takes
  the provider state and returns either the thrown error or the value, and the next
  state. The three flags say whether \<open>client?.beta?.threads?.runs?.list\<close>, \<open>.cancel\<close>
  and \<open>.retrieve\<close> are defined, which the source tests before it calls them.
\<close>

record 'p client =
  has_list :: bool
  has_cancel :: bool
  has_retrieve :: bool
  runs_list :: "string \<Rightarrow> nat \<Rightarrow> 'p \<Rightarrow> (js_error + run list) \<times> 'p"
  runs_cancel :: "string \<Rightarrow> string \<Rightarrow> 'p \<Rightarrow> (js_error + unit) \<times> 'p"
  runs_retrieve :: "string \<Rightarrow> string \<Rightarrow> 'p \<Rightarrow> (js_error + run) \<times> 'p"
  messages_create :: "string \<Rightarrow> string \<Rightarrow> 'p \<Rightarrow> (js_error + unit) \<times> 'p"
  runs_stream :: "string \<Rightarrow> string \<Rightarrow> 'p \<Rightarrow> (js_error + event_stream) \<times> 'p"
  runs_submitToolOutputsStream ::
    "string \<Rightarrow> string \<Rightarrow> tool_output list \<Rightarrow> 'p \<Rightarrow> (js_error + event_stream) \<times> 'p"

text \<open>
  An entry of \<open>activeSessions\<close>: \<open>{ client, assistantId, userId }\<close>.
\<close>

record 'p session =
  client :: "'p client"
  assistantId :: string
  userId :: nat

text \<open>The calls of \<open>llmLogOps\<close>, the audit sink.\<close>

datatype audit_entry =
    LogRequest string string nat nat nat string "string option"
  | UpdateSessionStatus string string "string option"

text \<open>
  Everything a request handler can read or change besides its response: the session
  table, the provider, the calls made so far and the audit sink.
\<close>

record 'p world =
  activeSessions :: "string \<rightharpoonup> 'p session"
  provider :: 'p
  trace :: "call list"
  audit :: "audit_entry list"

definition record_call :: "call \<Rightarrow> 'p world \<Rightarrow> 'p world" where
  "record_call k w = w\<lparr>trace := trace w @ [k]\<rparr>"

definition invoke :: "call \<Rightarrow> ('p \<Rightarrow> (js_error + 'a) \<times> 'p) \<Rightarrow> 'p world \<Rightarrow> (js_error + 'a) \<times> 'p world" where
  "invoke k m w = (case m (provider w) of (r, p') \<Rightarrow> (r, record_call k (w\<lparr>provider := p'\<rparr>)))"

definition call_list :: "'p client \<Rightarrow> string \<Rightarrow> nat \<Rightarrow> 'p world \<Rightarrow> (js_error + run list) \<times> 'p world" where
  "call_list c tid lim = invoke (CallList tid lim) (runs_list c tid lim)"

definition call_cancel :: "'p client \<Rightarrow> string \<Rightarrow> string \<Rightarrow> 'p world \<Rightarrow> (js_error + unit) \<times> 'p world" where
  "call_cancel c tid rid = invoke (CallCancel tid rid) (runs_cancel c tid rid)"

definition call_retrieve :: "'p client \<Rightarrow> string \<Rightarrow> string \<Rightarrow> 'p world \<Rightarrow> (js_error + run) \<times> 'p world" where
  "call_retrieve c tid rid = invoke (CallRetrieve tid rid) (runs_retrieve c tid rid)"

definition call_create :: "'p client \<Rightarrow> string \<Rightarrow> string \<Rightarrow> 'p world \<Rightarrow> (js_error + unit) \<times> 'p world" where
  "call_create c tid msg = invoke (CallCreateMessage tid msg) (messages_create c tid msg)"

definition call_stream :: "'p client \<Rightarrow> string \<Rightarrow> string \<Rightarrow> 'p world \<Rightarrow> (js_error + event_stream) \<times> 'p world" where
  "call_stream c tid aid = invoke (CallStream tid aid) (runs_stream c tid aid)"

definition call_submit ::
  "'p client \<Rightarrow> string \<Rightarrow> string \<Rightarrow> tool_output list \<Rightarrow> 'p world \<Rightarrow> (js_error + event_stream) \<times> 'p world" where
  "call_submit c tid rid outs =
     invoke (CallSubmitToolOutputs tid rid outs) (runs_submitToolOutputsStream c tid rid outs)"

text \<open>\<open>await new Promise(resolve => setTimeout(resolve, ms))\<close>.\<close>

definition sleep :: "nat \<Rightarrow> 'p world \<Rightarrow> 'p world" where
  "sleep ms = record_call (CallSleep ms)"

definition log_audit :: "audit_entry \<Rightarrow> 'p world \<Rightarrow> 'p world" where
  "log_audit a w = w\<lparr>audit := audit w @ [a]\<rparr>"

subsection \<open>Run coordination\<close>

definition isRunActive :: "string \<Rightarrow> bool" where
  "isRunActive status =
     (status = ''queued'' \<or> status = ''in_progress'' \<or> status = ''requires_action'')"

text \<open>
  The regular expression \<open>/while a run (run_[A-Za-z0-9]+) is active\.?/\<close>.
  \<open>matchHere\<close> matches it at the head of a string: the greedy class takes every
  alphanumeric character, and giving one back cannot help, since the next pattern
  character is a space. \<open>matchFirst\<close> is the leftmost match, and the result is
  group 1.
\<close>

definition isAlnum :: "char \<Rightarrow> bool" where
  "isAlnum ch =
     (let n = (of_char ch :: nat)
      in (48 \<le> n \<and> n \<le> 57) \<or> (65 \<le> n \<and> n \<le> 90) \<or> (97 \<le> n \<and> n \<le> 122))"

definition matchHere :: "string \<Rightarrow> string option" where
  "matchHere s =
     (if startsWith s ''while a run run_'' then
        (let rest = drop (length ''while a run run_'') s;
             name = takeWhile isAlnum rest
         in if name \<noteq> [] \<and> startsWith (dropWhile isAlnum rest) '' is active''
            then Some (''run_'' @ name) else None)
      else None)"

fun matchFirst :: "string \<Rightarrow> string option" where
  "matchFirst [] = None"
| "matchFirst (ch # s) =
     (case matchHere (ch # s) of Some g \<Rightarrow> Some g | None \<Rightarrow> matchFirst s)"

definition extractActiveRunIdFromErrorMessage :: "js_error \<Rightarrow> string option" where
  "extractActiveRunIdFromErrorMessage msg =
     (case msg of None \<Rightarrow> None | Some m \<Rightarrow> matchFirst m)"

text \<open>
  The inner loop of \<open>cancelActiveRuns\<close>,
  \<open>for (let i = 0; i < 10; i++) { retrieve; if (!isRunActive) break; sleep 250 }\<close>.
\<close>

function pollCancelled ::
  "'p client \<Rightarrow> string \<Rightarrow> string \<Rightarrow> nat \<Rightarrow> 'p world \<Rightarrow> (js_error + unit) \<times> 'p world" where
  "pollCancelled c tid rid i w =
     (if i < 10 then
        (case call_retrieve c tid rid w of
           (Inl e, w1) \<Rightarrow> (Inl e, w1)
         | (Inr rr, w1) \<Rightarrow>
             if \<not> isRunActive (run_status rr) then (Inr (), w1)
             else pollCancelled c tid rid (Suc i) (sleep 250 w1))
      else (Inr (), w))"
  by pat_completeness auto
termination
  by (relation "measure (\<lambda>(c, tid, rid, i, w). 10 - i)") auto

text \<open>The loop \<open>for (const r of data)\<close> of \<open>cancelActiveRuns\<close>.\<close>

fun cancelEach ::
  "'p client \<Rightarrow> string \<Rightarrow> string option \<Rightarrow> run list \<Rightarrow> 'p world \<Rightarrow> (js_error + unit) \<times> 'p world" where
  "cancelEach c tid excludeRunId [] w = (Inr (), w)"
| "cancelEach c tid excludeRunId (r # rs) w =
     (if run_id r = [] \<or> Some (run_id r) = excludeRunId then cancelEach c tid excludeRunId rs w
      else if \<not> isRunActive (run_status r) then cancelEach c tid excludeRunId rs w
      else if \<not> has_cancel c then cancelEach c tid excludeRunId rs w
      else
        (case call_cancel c tid (run_id r) w of
           (Inl e, w1) \<Rightarrow> (Inl e, w1)
         | (Inr u, w1) \<Rightarrow>
             if has_retrieve c then
               (case pollCancelled c tid (run_id r) 0 w1 of
                  (Inl e, w2) \<Rightarrow> (Inl e, w2)
                | (Inr u2, w2) \<Rightarrow> cancelEach c tid excludeRunId rs w2)
             else cancelEach c tid excludeRunId rs w1))"

definition cancelActiveRuns ::
  "'p client \<Rightarrow> string \<Rightarrow> string option \<Rightarrow> 'p world \<Rightarrow> (js_error + unit) \<times> 'p world" where
  "cancelActiveRuns c tid excludeRunId w =
     (if \<not> has_list c then (Inr (), w)
      else
        (case call_list c tid 10 w of
           (Inl e, w1) \<Rightarrow> (Inl e, w1)
         | (Inr data, w1) \<Rightarrow> cancelEach c tid excludeRunId data w1))"

subsection \<open>Usage reconciliation\<close>

text \<open>
  How the loop of \<open>retrieveRunUsageWithRetry\<close> is left: by one of its \<open>return\<close>
  statements, with the value returned (a pair \<open>(inputTokens, outputTokens)\<close> or
  \<open>null\<close>), or by running out of iterations, with the last run retrieved.
\<close>

datatype poll_exit =
    Returned "(nat \<times> nat) option"
  | Exhausted "run option"

text \<open>
  The first test of the loop body: when \<open>usage && (usage.prompt_tokens ||
  usage.completion_tokens)\<close> holds, the pair
  \<open>(usage.prompt_tokens || 0, usage.completion_tokens || 0)\<close> that is returned.
\<close>

definition usageTokens :: "run option \<Rightarrow> (nat \<times> nat) option" where
  "usageTokens lastRun =
     (case lastRun of
        None \<Rightarrow> None
      | Some r \<Rightarrow>
          (case run_usage r of
             None \<Rightarrow> None
           | Some u \<Rightarrow>
               if prompt_tokens u \<noteq> 0 \<or> completion_tokens u \<noteq> 0
               then Some (prompt_tokens u, completion_tokens u) else None))"

text \<open>\<open>lastRun?.status && isRunActive(lastRun.status)\<close>.\<close>

definition stillActive :: "run option \<Rightarrow> bool" where
  "stillActive lastRun = (case lastRun of None \<Rightarrow> False
                          | Some r \<Rightarrow> run_status r \<noteq> [] \<and> isRunActive (run_status r))"

function usagePoll ::
  "'p client \<Rightarrow> string \<Rightarrow> string \<Rightarrow> nat \<Rightarrow> run option \<Rightarrow> 'p world \<Rightarrow> poll_exit \<times> 'p world" where
  "usagePoll c tid rid i lastRun w =
     (if i < 6 then
        (case call_retrieve c tid rid w of
           (got, w1) \<Rightarrow>
             (let lastRun1 = (case got of Inl e \<Rightarrow> None | Inr r \<Rightarrow> Some r)
              in case usageTokens lastRun1 of
                   Some t \<Rightarrow> (Returned (Some t), w1)
                 | None \<Rightarrow>
                     if stillActive lastRun1 then (Returned None, w1)
                     else usagePoll c tid rid (Suc i) lastRun1
                            (if i < 5 then sleep 250 w1 else w1)))
      else (Exhausted lastRun, w))"
  by pat_completeness auto
termination
  by (relation "measure (\<lambda>(c, tid, rid, i, lastRun, w). 6 - i)") auto

definition retrieveRunUsageWithRetry ::
  "'p client \<Rightarrow> string \<Rightarrow> string \<Rightarrow> 'p world \<Rightarrow> (nat \<times> nat) option \<times> 'p world" where
  "retrieveRunUsageWithRetry c tid rid w =
     (if \<not> has_retrieve c \<or> rid = [] then (None, w)
      else
        (case usagePoll c tid rid 0 None w of
           (Returned v, w1) \<Rightarrow> (v, w1)
         | (Exhausted lastRun, w1) \<Rightarrow>
             if stillActive lastRun then (None, w1)
             else (None, record_call (WarnUsageMissing tid rid) w1)))"

subsection \<open>The request handlers\<close>

record chat_request =
  chat_user :: nat
  chat_threadId :: string
  chat_message :: string

record tool_request =
  tool_user :: nat
  tool_threadId :: string
  tool_runId :: string
  tool_outputs :: "tool_output list option"

text \<open>
  The \<open>try { messages.create } catch (e) { ... }\<close> block of the chat handler: on a
  failure whose message names an active run, cancel that run, cancel the active runs
  again and create the message once more; otherwise rethrow.
\<close>

definition appendMessage ::
  "'p client \<Rightarrow> string \<Rightarrow> string \<Rightarrow> 'p world \<Rightarrow> (js_error + unit) \<times> 'p world" where
  "appendMessage c tid msg w =
     (case call_create c tid msg w of
        (Inr u, w1) \<Rightarrow> (Inr (), w1)
      | (Inl e, w1) \<Rightarrow>
          (case extractActiveRunIdFromErrorMessage e of
             Some runIdFromErr \<Rightarrow>
               if has_cancel c then
                 (case call_cancel c tid runIdFromErr w1 of
                    (Inl e1, w2) \<Rightarrow> (Inl e1, w2)
                  | (Inr u, w2) \<Rightarrow>
                      (case cancelActiveRuns c tid None w2 of
                         (Inl e2, w3) \<Rightarrow> (Inl e2, w3)
                       | (Inr u2, w3) \<Rightarrow> call_create c tid msg w3))
               else (Inl e, w1)
           | None \<Rightarrow> (Inl e, w1)))"

text \<open>\<open>streamResult.error ? 'error' : 'success'\<close> and \<open>streamResult.error || null\<close>.\<close>

definition statusOf :: "string option \<Rightarrow> string" where
  "statusOf err = (if truthy err then ''error'' else ''success'')"

definition orNull :: "string option \<Rightarrow> string option" where
  "orNull err = (if truthy err then err else None)"

text \<open>
  The chat handler from \<open>handleStream\<close> to the audit entry: relay the stream,
  reconcile the usage, log the request.
\<close>

definition chatRelay ::
  "'p client \<Rightarrow> string \<Rightarrow> event_stream \<Rightarrow> response \<Rightarrow> 'p world \<Rightarrow> response \<times> 'p world" where
  "chatRelay c tid stream res w =
     (case handleStream stream res of
        (streamResult, res1) \<Rightarrow>
          (case retrieveRunUsageWithRetry c tid (res_runId streamResult) w of
             (usage, w1) \<Rightarrow>
               (let tokens = (case usage of
                                Some t \<Rightarrow> t
                              | None \<Rightarrow> (res_inputTokens streamResult, res_outputTokens streamResult))
                in (res1,
                    log_audit (LogRequest tid ''chat'' (toolCallCount streamResult)
                                 (fst tokens) (snd tokens)
                                 (statusOf (res_error streamResult))
                                 (orNull (res_error streamResult))) w1))))"

text \<open>The body of the chat handler's \<open>try\<close> once the event stream is open.\<close>

definition chatRun ::
  "'p client \<Rightarrow> string \<Rightarrow> string \<Rightarrow> string \<Rightarrow> response \<Rightarrow> 'p world
     \<Rightarrow> (js_error + unit) \<times> response \<times> 'p world" where
  "chatRun c tid aid msg res w =
     (case cancelActiveRuns c tid None w of
        (Inl e, w1) \<Rightarrow> (Inl e, res, w1)
      | (Inr u, w1) \<Rightarrow>
          (case appendMessage c tid msg w1 of
             (Inl e, w2) \<Rightarrow> (Inl e, res, w2)
           | (Inr u2, w2) \<Rightarrow>
               (case call_stream c tid aid w2 of
                  (Inl e, w3) \<Rightarrow> (Inl e, res, w3)
                | (Inr stream, w3) \<Rightarrow>
                    (case chatRelay c tid stream res w3 of
                       (res1, w4) \<Rightarrow> (Inr (), res1, w4)))))"

text \<open>The reply of a handler's \<open>catch\<close> block.\<close>

definition replyError :: "js_error \<Rightarrow> response \<Rightarrow> response" where
  "replyError e res =
     (if headersSent res then res_end (res_write (FError e) res)
      else res_json 500 (ErrorReply ''LLM_ERROR'' e) res)"

text \<open>\<open>router.post('/chat', ...)\<close>.\<close>

definition chat :: "chat_request \<Rightarrow> response \<Rightarrow> 'p world \<Rightarrow> response \<times> 'p world" where
  "chat req res w =
     (let threadId = chat_threadId req; message = chat_message req in
      if threadId = [] \<or> message = [] then
        (res_json 400 (ErrorReply ''Missing threadId or message'' None) res, w)
      else
        (case activeSessions w threadId of
           None \<Rightarrow>
             (res_json 404 (ErrorReply ''SESSION_NOT_FOUND''
                (Some ''Thread session not found. Call /assistant first.'')) res, w)
         | Some session \<Rightarrow>
             if userId session \<noteq> chat_user req then
               (res_json 403 (ErrorReply ''UNAUTHORIZED''
                  (Some ''Not authorized to access this session'')) res, w)
             else
               (case chatRun (client session) threadId (assistantId session) message
                       (res_flushHeaders res) w of
                  (Inr u, res1, w1) \<Rightarrow> (res1, w1)
                | (Inl e, res1, w1) \<Rightarrow>
                    (replyError e res1,
                     log_audit (UpdateSessionStatus threadId ''error'' e)
                       (log_audit (LogRequest threadId ''chat'' 0 0 0 ''error'' e) w1)))))"

text \<open>The tool-output handler from \<open>handleStream\<close> to the audit entry.\<close>

definition toolRelay ::
  "'p client \<Rightarrow> string \<Rightarrow> tool_output list \<Rightarrow> event_stream \<Rightarrow> response \<Rightarrow> 'p world
     \<Rightarrow> response \<times> 'p world" where
  "toolRelay c tid outs stream res w =
     (case handleStream stream res of
        (streamResult, res1) \<Rightarrow>
          (case (if res_runId streamResult = [] then (None, w)
                 else retrieveRunUsageWithRetry c tid (res_runId streamResult) w) of
             (usage, w1) \<Rightarrow>
               (let tokens = (case usage of
                                Some t \<Rightarrow> t
                              | None \<Rightarrow> (res_inputTokens streamResult, res_outputTokens streamResult))
                in (res1,
                    log_audit (LogRequest tid ''tool_output'' (length outs)
                                 (fst tokens) (snd tokens)
                                 (statusOf (res_error streamResult))
                                 (orNull (res_error streamResult))) w1))))"

definition toolRun ::
  "'p client \<Rightarrow> string \<Rightarrow> string \<Rightarrow> tool_output list \<Rightarrow> response \<Rightarrow> 'p world
     \<Rightarrow> (js_error + unit) \<times> response \<times> 'p world" where
  "toolRun c tid rid outs res w =
     (case cancelActiveRuns c tid (Some rid) w of
        (Inl e, w1) \<Rightarrow> (Inl e, res, w1)
      | (Inr u, w1) \<Rightarrow>
          (case call_submit c tid rid outs w1 of
             (Inl e, w2) \<Rightarrow> (Inl e, res, w2)
           | (Inr stream, w2) \<Rightarrow>
               (case toolRelay c tid outs stream res w2 of
                  (res1, w3) \<Rightarrow> (Inr (), res1, w3))))"

text \<open>\<open>router.post('/tool-outputs', ...)\<close>.\<close>

definition toolOutputs :: "tool_request \<Rightarrow> response \<Rightarrow> 'p world \<Rightarrow> response \<times> 'p world" where
  "toolOutputs req res w =
     (let threadId = tool_threadId req; rid = tool_runId req in
      case tool_outputs req of
        None \<Rightarrow> (res_json 400 (ErrorReply ''Missing required fields'' None) res, w)
      | Some outs \<Rightarrow>
          if threadId = [] \<or> rid = [] then
            (res_json 400 (ErrorReply ''Missing required fields'' None) res, w)
          else
            (case activeSessions w threadId of
               None \<Rightarrow>
                 (res_json 404 (ErrorReply ''SESSION_NOT_FOUND''
                    (Some ''Thread session not found'')) res, w)
             | Some session \<Rightarrow>
                 if userId session \<noteq> tool_user req then
                   (res_json 403 (ErrorReply ''UNAUTHORIZED'' None) res, w)
                 else
                   (case toolRun (client session) threadId rid outs (res_flushHeaders res) w of
                      (Inr u, res1, w1) \<Rightarrow> (res1, w1)
                    | (Inl e, res1, w1) \<Rightarrow>
                        (replyError e res1,
                         log_audit (LogRequest threadId ''tool_output'' (length outs)
                                      0 0 ''error'' e) w1))))"

text \<open>\<open>router.delete('/session/:threadId', ...)\<close>.\<close>

definition deleteSession :: "nat \<Rightarrow> string \<Rightarrow> response \<Rightarrow> 'p world \<Rightarrow> response \<times> 'p world" where
  "deleteSession user threadId res w =
     (case activeSessions w threadId of
        Some session \<Rightarrow>
          if userId session = user then
            (res_json 200 SuccessReply res,
             log_audit (UpdateSessionStatus threadId ''completed'' None)
               (w\<lparr>activeSessions := (activeSessions w)(threadId := None)\<rparr>))
          else (res_json 404 (ErrorReply ''Session not found'' None) res, w)
      | None \<Rightarrow> (res_json 404 (ErrorReply ''Session not found'' None) res, w))"

section \<open>Notions used to state the properties\<close>

text \<open>The accumulator state when the source sequence has been consumed.\<close>

definition finalState :: "event_stream \<Rightarrow> stream_state" where
  "finalState stream = fst (foldl handleEvent (stream_init, res_init) (events stream))"

text \<open>A slot that is filled and has a non-empty id.\<close>

definition hasId :: "tool_call option \<Rightarrow> bool" where
  "hasId t = (case t of None \<Rightarrow> False | Some c \<Rightarrow> call_id c \<noteq> [])"

text \<open>What one fragment does to the slot of its own index.\<close>

definition mergeStep :: "tool_call option \<Rightarrow> tool_call_delta \<Rightarrow> tool_call option" where
  "mergeStep slot f = (if d_type f = ''function'' then Some (mergeFragment slot f) else slot)"

text \<open>
  The runs that \<open>cancelActiveRuns\<close> does not skip: a non-empty id other than the
  excluded one, and an active status.
\<close>

definition eligible :: "string option \<Rightarrow> run \<Rightarrow> bool" where
  "eligible excludeRunId r =
     (run_id r \<noteq> [] \<and> Some (run_id r) \<noteq> excludeRunId \<and> isRunActive (run_status r))"

text \<open>
  The calls of one polling loop after a cancellation, with a budget of \<open>n\<close> polls:
  retrieve, pause 250 ms, retrieve, pause 250 ms, ..., where only the last retrieve may
  lack its pause (the loop was left there).
\<close>

fun pollShape :: "string \<Rightarrow> string \<Rightarrow> nat \<Rightarrow> call list \<Rightarrow> bool" where
  "pollShape tid rid n [] = True"
| "pollShape tid rid n [k] = (0 < n \<and> k = CallRetrieve tid rid)"
| "pollShape tid rid n (k1 # k2 # ks) =
     (0 < n \<and> k1 = CallRetrieve tid rid \<and> k2 = CallSleep 250 \<and> pollShape tid rid (n - 1) ks)"


text \<open>
  The calls the loop of \<open>cancelActiveRuns\<close> can make on the runs with the given ids:
  cancel or retrieve one of them, or pause 250 ms.
\<close>

definition cancelCall :: "string \<Rightarrow> string list \<Rightarrow> call \<Rightarrow> bool" where
  "cancelCall tid ids k =
     (case k of
        CallCancel t r \<Rightarrow> t = tid \<and> r \<in> set ids
      | CallRetrieve t r \<Rightarrow> t = tid \<and> r \<in> set ids
      | CallSleep ms \<Rightarrow> ms = 250
      | _ \<Rightarrow> False)"

text \<open>
  The calls of the usage polling loop with a budget of \<open>n\<close> polls: at least one
  retrieve, and a pause of 250 ms between two retrieves.
\<close>

fun usageShape :: "string \<Rightarrow> string \<Rightarrow> nat \<Rightarrow> call list \<Rightarrow> bool" where
  "usageShape tid rid n [] = False"
| "usageShape tid rid n [k] = (0 < n \<and> k = CallRetrieve tid rid)"
| "usageShape tid rid n (k1 # k2 # ks) =
     (1 < n \<and> k1 = CallRetrieve tid rid \<and> k2 = CallSleep 250 \<and> usageShape tid rid (n - 1) ks)"

text \<open>
  Every run-state event that \<open>handleStream\<close> takes the run id from carries one, as the
  provider's run objects do.
\<close>

definition runEventsCarryId :: "event list \<Rightarrow> bool" where
  "runEventsCarryId evs =
     list_all (\<lambda>ev. event_name ev = ''thread.run.requires_action'' \<or>
                    event_name ev = ''thread.run.completed'' \<or>
                    event_name ev = ''thread.run.failed'' \<longrightarrow> data_id ev \<noteq> []) evs"

text \<open>The calls made between two states of the world.\<close>

definition newCalls :: "'p world \<Rightarrow> 'p world \<Rightarrow> call list" where
  "newCalls w w' = drop (length (trace w)) (trace w')"

definition isCreate :: "call \<Rightarrow> bool" where
  "isCreate k = (case k of CallCreateMessage t m \<Rightarrow> True | _ \<Rightarrow> False)"

text \<open>The calls that submit something to the conversation.\<close>

definition isSubmit :: "call \<Rightarrow> bool" where
  "isSubmit k = (case k of CallCreateMessage t m \<Rightarrow> True | CallStream t a \<Rightarrow> True
                 | CallSubmitToolOutputs t r outs \<Rightarrow> True | _ \<Rightarrow> False)"

definition isList :: "call \<Rightarrow> bool" where
  "isList k = (case k of CallList t n \<Rightarrow> True | _ \<Rightarrow> False)"

subsection \<open>Polling, poll by poll\<close>

text \<open>
  One round of a polling loop that goes on: the retrieve call and the pause of 250 ms
  that follows it; and the world after \<open>j\<close> such rounds.
\<close>

definition pollRound :: "'p client \<Rightarrow> string \<Rightarrow> string \<Rightarrow> 'p world \<Rightarrow> 'p world" where
  "pollRound c tid rid w = sleep 250 (snd (call_retrieve c tid rid w))"

definition afterRounds :: "'p client \<Rightarrow> string \<Rightarrow> string \<Rightarrow> nat \<Rightarrow> 'p world \<Rightarrow> 'p world" where
  "afterRounds c tid rid j w = (pollRound c tid rid ^^ j) w"






text \<open>
  What a usage poll made in world \<open>w\<close> leaves in \<open>lastRun\<close> (nothing when the call
  throws). The poll is undecided when it shows neither a non-zero token figure nor an
  active status, so that the loop goes on; \<open>undecidedThrough\<close> says so of each of the
  first \<open>k\<close> polls made from \<open>w\<close> on.
\<close>

definition pollOutcome :: "'p client \<Rightarrow> string \<Rightarrow> string \<Rightarrow> 'p world \<Rightarrow> run option" where
  "pollOutcome c tid rid w =
     (case fst (call_retrieve c tid rid w) of Inl e \<Rightarrow> None | Inr r \<Rightarrow> Some r)"

definition undecided :: "'p client \<Rightarrow> string \<Rightarrow> string \<Rightarrow> 'p world \<Rightarrow> bool" where
  "undecided c tid rid w =
     (usageTokens (pollOutcome c tid rid w) = None \<and> \<not> stillActive (pollOutcome c tid rid w))"

definition undecidedThrough :: "'p client \<Rightarrow> string \<Rightarrow> string \<Rightarrow> nat \<Rightarrow> 'p world \<Rightarrow> bool" where
  "undecidedThrough c tid rid k w =
     list_all (\<lambda>j. undecided c tid rid (afterRounds c tid rid j w)) [0..<k]"

text \<open>
  Usage reconciliation in the words of its description, without a loop. With a budget of
  \<open>n\<close> polls and \<open>k\<close> the number of leading undecided polls: when \<open>k = n\<close> the budget is
  used up, after \<open>n\<close> polls and \<open>n - 1\<close> pauses; otherwise poll \<open>k + 1\<close> decides, and
  what it shows is returned, the usage or nothing for a run still active. Reconciliation
  is skipped for an empty run id, has a budget of 6, and reports the missing usage to the
  operator when the budget is used up.
\<close>

definition pollUsage_spec ::
  "'p client \<Rightarrow> string \<Rightarrow> string \<Rightarrow> nat \<Rightarrow> 'p world \<Rightarrow> poll_exit \<times> 'p world" where
  "pollUsage_spec c tid rid n w =
     (let k = length (takeWhile (\<lambda>j. undecided c tid rid (afterRounds c tid rid j w)) [0..<n])
      in if k = n
         then (Exhausted (pollOutcome c tid rid (afterRounds c tid rid (n - 1) w)),
               snd (call_retrieve c tid rid (afterRounds c tid rid (n - 1) w)))
         else (Returned (usageTokens (pollOutcome c tid rid (afterRounds c tid rid k w))),
               snd (call_retrieve c tid rid (afterRounds c tid rid k w))))"

definition reconcile_spec ::
  "'p client \<Rightarrow> string \<Rightarrow> string \<Rightarrow> 'p world \<Rightarrow> (nat \<times> nat) option \<times> 'p world" where
  "reconcile_spec c tid rid w =
     (if rid = [] then (None, w)
      else
        (case pollUsage_spec c tid rid 6 w of
           (Returned v, w1) \<Rightarrow> (v, w1)
         | (Exhausted lastRun, w1) \<Rightarrow> (None, record_call (WarnUsageMissing tid rid) w1)))"

subsection \<open>Concrete inputs\<close>

text \<open>
  The two fragments of Scenario D, both function fragments of index 0 (the scenario
  writes out only the id, name and arguments), and the call they are to produce.
\<close>

definition fragD1 :: tool_call_delta where
  \<open>fragD1 = \<lparr>d_index = 0, d_type = ''function'', d_id = ''call_1'', d_name = ''read_f'',
              d_arguments = ''{"path":''\<rparr>\<close>

definition fragD2 :: tool_call_delta where
  \<open>fragD2 = \<lparr>d_index = 0, d_type = ''function'', d_id = [], d_name = ''ile'',
              d_arguments = ''"a.txt"}''\<rparr>\<close>

definition callD :: tool_call where
  \<open>callD = \<lparr>call_id = ''call_1'', call_type = ''function'', fn_name = ''read_file'',
             fn_arguments = ''{"path":"a.txt"}''\<rparr>\<close>

definition runEvent :: "string \<Rightarrow> string \<Rightarrow> event" where
  "runEvent name rid =
     \<lparr>event_name = name, data_id = rid, data_run_id = [], delta_content0 = None,
      delta_step_details = None, data_usage = None, last_error_message = []\<rparr>"

definition stepDelta :: "tool_call_delta list \<Rightarrow> event" where
  "stepDelta tcs =
     \<lparr>event_name = ''thread.run.step.delta'', data_id = ''step_1'', data_run_id = [],
      delta_content0 = None,
      delta_step_details = Some \<lparr>sd_type = ''tool_calls'', sd_tool_calls = tcs\<rparr>,
      data_usage = None, last_error_message = []\<rparr>"

text \<open>Scenario D as a stream that ends normally, and the same events cut by a fault.\<close>

definition streamD :: event_stream where
  "streamD = \<lparr>events = [runEvent ''thread.run.created'' ''run_1'', stepDelta [fragD1],
                        stepDelta [fragD2]], fault = None\<rparr>"

definition streamFault :: event_stream where
  "streamFault = \<lparr>events = [runEvent ''thread.run.created'' ''run_1'', stepDelta [fragD1],
                            stepDelta [fragD2]], fault = Some (Some ''socket hang up'')\<rparr>"

text \<open>Fragments of one call split by field, and a fragment of another index.\<close>

definition fragName :: tool_call_delta where
  "fragName = \<lparr>d_index = 0, d_type = ''function'', d_id = ''call_1'', d_name = ''read_file'',
               d_arguments = []\<rparr>"

definition fragArgs :: tool_call_delta where
  "fragArgs = \<lparr>d_index = 0, d_type = ''function'', d_id = [], d_name = [],
               d_arguments = ''{}''\<rparr>"

definition fragOther :: tool_call_delta where
  "fragOther = \<lparr>d_index = 1, d_type = ''function'', d_id = ''call_2'', d_name = ''list_files'',
                d_arguments = []\<rparr>"

text \<open>Scenario A: a run that only sends two text deltas.\<close>

definition textDelta :: "string \<Rightarrow> event" where
  "textDelta s =
     \<lparr>event_name = ''thread.message.delta'', data_id = ''msg_1'', data_run_id = [],
      delta_content0 = Some \<lparr>part_type = ''text'', text_value = s\<rparr>,
      delta_step_details = None, data_usage = None, last_error_message = []\<rparr>"

definition streamA :: event_stream where
  "streamA = \<lparr>events = [runEvent ''thread.run.created'' ''run_1'', textDelta ''Here'',
                        textDelta '' are the files''], fault = None\<rparr>"


text \<open>A stream in which the provider never discloses a run id.\<close>

definition streamAnon :: event_stream where
  "streamAnon = \<lparr>events = [textDelta ''Here''], fault = None\<rparr>"

text \<open>
  A scripted provider. Its state counts the retrieve and the create calls made so far.
  \<open>runs.list\<close> returns the first \<open>limit\<close> runs of the script; \<open>runs.cancel\<close> throws
  the script's error, if any; \<open>runs.retrieve\<close> reports the run with the status \<open>sc_pending\<close> and without
  usage for the first \<open>sc_active_polls\<close> polls and returns \<open>sc_terminal\<close>
  afterwards; the k-th
  \<open>messages.create\<close> throws the k-th error of the script and succeeds when there is
  none; both stream calls return the script's stream.
\<close>

record script =
  sc_runs :: "run list"
  sc_pending :: string
  sc_active_polls :: nat
  sc_terminal :: run
  sc_cancel_error :: "js_error option"
  sc_create_errors :: "js_error list"
  sc_stream :: event_stream

record sim =
  polls :: nat
  creations :: nat

definition simClient :: "script \<Rightarrow> sim client" where
  "simClient sc =
     \<lparr>has_list = True, has_cancel = True, has_retrieve = True,
      runs_list = (\<lambda>tid lim p. (Inr (take lim (sc_runs sc)), p)),
      runs_cancel = (\<lambda>tid rid p.
         (case sc_cancel_error sc of Some e \<Rightarrow> Inl e | None \<Rightarrow> Inr (), p)),
      runs_retrieve = (\<lambda>tid rid p.
         (Inr (if polls p < sc_active_polls sc
               then \<lparr>run_id = rid, run_status = sc_pending sc, run_usage = None\<rparr>
               else sc_terminal sc),
          p\<lparr>polls := Suc (polls p)\<rparr>)),
      messages_create = (\<lambda>tid msg p.
         (if creations p < length (sc_create_errors sc)
          then Inl (sc_create_errors sc ! creations p) else Inr (),
          p\<lparr>creations := Suc (creations p)\<rparr>)),
      runs_stream = (\<lambda>tid aid p. (Inr (sc_stream sc), p)),
      runs_submitToolOutputsStream = (\<lambda>tid rid outs p. (Inr (sc_stream sc), p))\<rparr>"

text \<open>One session, \<open>thread_1\<close>, owned by user 7, and nothing done yet.\<close>

definition simWorld :: "script \<Rightarrow> sim world" where
  "simWorld sc =
     \<lparr>activeSessions =
        [''thread_1'' \<mapsto> \<lparr>client = simClient sc, assistantId = ''asst_1'', userId = 7\<rparr>],
      provider = \<lparr>polls = 0, creations = 0\<rparr>, trace = [], audit = []\<rparr>"

definition conflictError :: js_error where
  "conflictError = Some ''Cannot add messages to thread_1 while a run run_abc123 is active.''"

definition cancelledRun :: run where
  "cancelledRun = \<lparr>run_id = ''run_old'', run_status = ''cancelled'', run_usage = None\<rparr>"

definition completedRun :: run where
  "completedRun = \<lparr>run_id = ''run_1'', run_status = ''completed'',
                   run_usage = Some \<lparr>prompt_tokens = 120, completion_tokens = 30\<rparr>\<rparr>"


definition doneRun :: run where
  "doneRun = \<lparr>run_id = ''run_done'', run_status = ''completed'', run_usage = None\<rparr>"

text \<open>
  Scenario B: a run is in \<open>requires_action\<close> when the message arrives; after the
  cancellation it is reported in progress once and then cancelled.
\<close>

definition scriptB :: script where
  "scriptB = \<lparr>sc_runs = [\<lparr>run_id = ''run_old'', run_status = ''requires_action'', run_usage = None\<rparr>,
                          \<lparr>run_id = ''run_done'', run_status = ''completed'', run_usage = None\<rparr>],
              sc_pending = ''in_progress'', sc_active_polls = 1, sc_terminal = cancelledRun,
              sc_cancel_error = None,
              sc_create_errors = [], sc_stream = streamA\<rparr>"


text \<open>Eleven runs, the active one last: the list call returns the first ten.\<close>

definition scriptMany :: script where
  "scriptMany = scriptB\<lparr>sc_runs := replicate 10 doneRun @
     [\<lparr>run_id = ''run_11'', run_status = ''in_progress'', run_usage = None\<rparr>]\<rparr>"

text \<open>
  Scenario C: no run is listed, the first append is rejected with a conflict naming
  \<open>run_abc123\<close>; in \<open>scriptC2\<close> the second append is rejected as well; in
  \<open>scriptGone\<close> the provider refuses to cancel the run named in the conflict.
\<close>

definition scriptC :: script where
  "scriptC = \<lparr>sc_runs = [], sc_pending = ''in_progress'', sc_active_polls = 0,
              sc_terminal = completedRun, sc_cancel_error = None,
              sc_create_errors = [conflictError], sc_stream = streamA\<rparr>"

definition scriptC2 :: script where
  "scriptC2 = scriptC\<lparr>sc_create_errors := [conflictError, conflictError]\<rparr>"

definition scriptGone :: script where
  "scriptGone = scriptC\<lparr>sc_cancel_error := Some (Some ''Cannot cancel run with status completed'')\<rparr>"

text \<open>
  A run that has completed but whose usage the provider has not finalised at the first
  poll (\<open>scriptLate\<close>), and one whose usage never arrives (\<open>scriptNever\<close>).
\<close>

definition scriptLate :: script where
  "scriptLate = scriptC\<lparr>sc_pending := ''completed'', sc_active_polls := 1, sc_create_errors := []\<rparr>"

definition scriptNever :: script where
  "scriptNever = scriptC\<lparr>sc_terminal := doneRun, sc_create_errors := []\<rparr>"








text \<open>
  The worlds usage reconciliation ends in: after the one poll of scenario B, whose run
  is still in progress; after the two polls of \<open>scriptLate\<close>; after the six polls of
  \<open>scriptNever\<close> and the diagnostic.
\<close>

definition activeWorld :: "sim world" where
  "activeWorld = (simWorld scriptB)\<lparr>provider := \<lparr>polls = 1, creations = 0\<rparr>,
         trace := [CallRetrieve ''thread_1'' ''run_1'']\<rparr>"

definition lateWorld :: "sim world" where
  "lateWorld = (simWorld scriptLate)\<lparr>provider := \<lparr>polls = 2, creations = 0\<rparr>,
      trace := [CallRetrieve ''thread_1'' ''run_1'', CallSleep 250,
                CallRetrieve ''thread_1'' ''run_1'']\<rparr>"

definition neverWorld :: "sim world" where
  "neverWorld = (simWorld scriptNever)\<lparr>provider := \<lparr>polls = 6, creations = 0\<rparr>,
      trace := [CallRetrieve ''thread_1'' ''run_1'', CallSleep 250,
                CallRetrieve ''thread_1'' ''run_1'', CallSleep 250,
                CallRetrieve ''thread_1'' ''run_1'', CallSleep 250,
                CallRetrieve ''thread_1'' ''run_1'', CallSleep 250,
                CallRetrieve ''thread_1'' ''run_1'', CallSleep 250,
                CallRetrieve ''thread_1'' ''run_1'',
                WarnUsageMissing ''thread_1'' ''run_1'']\<rparr>"

definition chatReq :: chat_request where
  "chatReq = \<lparr>chat_user = 7, chat_threadId = ''thread_1'', chat_message = ''list files''\<rparr>"

definition toolReq :: tool_request where
  "toolReq = \<lparr>tool_user = 7, tool_threadId = ''thread_1'', tool_runId = ''run_old'',
              tool_outputs = Some [(''call_1'', ''ok'')]\<rparr>"

section \<open>Properties of the stream relay\<close>

subsection \<open>Arrays with holes\<close>

lemma js_ext: "xs = ys \<longleftrightarrow> length xs = length ys \<and> (\<forall>i. js_get xs i = js_get ys i)"
  by (auto simp: js_get_def list_eq_iff_nth_eq)

lemma length_js_set: "length (js_set xs i v) = max (length xs) (Suc i)"
  by (auto simp: js_set_def)

lemma js_get_js_set: "js_get (js_set xs i v) j = (if j = i then Some v else js_get xs j)"
  by (auto simp: js_get_def js_set_def nth_append)

lemma filter_via_indices:
  "filter P xs = map ((!) xs) (filter (\<lambda>i. P (xs ! i)) [0..<length xs])"
proof -
  have "filter P xs = filter P (map ((!) xs) [0..<length xs])"
    by (simp add: map_nth)
  also have "\<dots> = map ((!) xs) (filter (P \<circ> (!) xs) [0..<length xs])"
    by (simp only: filter_map)
  finally show ?thesis by (simp add: comp_def)
qed

lemma map_filter_via_indices:
  "List.map_filter f xs =
     map (\<lambda>i. the (f (xs ! i))) (filter (\<lambda>i. f (xs ! i) \<noteq> None) [0..<length xs])"
  unfolding List.map_filter_def
  by (subst filter_via_indices) (simp add: comp_def)

subsection \<open>The accumulator\<close>

lemma length_accumulate:
  "length (accumulate xs f) =
     (if d_type f = ''function'' then max (length xs) (Suc (d_index f)) else length xs)"
  by (simp add: accumulate_def length_js_set)

lemma js_get_accumulate:
  "js_get (accumulate xs f) i =
     (if d_type f = ''function'' \<and> d_index f = i then Some (mergeFragment (js_get xs i) f)
      else js_get xs i)"
  by (simp add: accumulate_def js_get_js_set)

lemma call_id_mergeFragment:
  "call_id (mergeFragment slot tc) =
     (if d_id tc \<noteq> [] then d_id tc else case slot of None \<Rightarrow> [] | Some s \<Rightarrow> call_id s)"
  by (simp add: mergeFragment_def Let_def split: option.splits)

lemma call_type_mergeFragment:
  "call_type (mergeFragment slot tc) =
     (case slot of None \<Rightarrow> ''function'' | Some s \<Rightarrow> call_type s)"
  by (simp add: mergeFragment_def Let_def split: option.splits)

lemma fn_name_mergeFragment:
  "fn_name (mergeFragment slot tc) =
     (case slot of None \<Rightarrow> [] | Some s \<Rightarrow> fn_name s) @ d_name tc"
  by (simp add: mergeFragment_def Let_def split: option.splits)

lemma fn_arguments_mergeFragment:
  "fn_arguments (mergeFragment slot tc) =
     (case slot of None \<Rightarrow> [] | Some s \<Rightarrow> fn_arguments s) @ d_arguments tc"
  by (simp add: mergeFragment_def Let_def split: option.splits)

lemma mergeFragment_swap:
  assumes "d_name f = [] \<or> d_name g = []"
      and "d_arguments f = [] \<or> d_arguments g = []"
      and "d_id f = [] \<or> d_id g = [] \<or> d_id f = d_id g"
  shows "mergeFragment (Some (mergeFragment slot f)) g =
         mergeFragment (Some (mergeFragment slot g)) f"
proof (rule tool_call.equality)
  show "call_id (mergeFragment (Some (mergeFragment slot f)) g) =
        call_id (mergeFragment (Some (mergeFragment slot g)) f)"
    using assms(3) by (auto simp: call_id_mergeFragment)
  show "call_type (mergeFragment (Some (mergeFragment slot f)) g) =
        call_type (mergeFragment (Some (mergeFragment slot g)) f)"
    by (simp add: call_type_mergeFragment)
  show "fn_name (mergeFragment (Some (mergeFragment slot f)) g) =
        fn_name (mergeFragment (Some (mergeFragment slot g)) f)"
    using assms(1) by (auto simp: fn_name_mergeFragment)
  show "fn_arguments (mergeFragment (Some (mergeFragment slot f)) g) =
        fn_arguments (mergeFragment (Some (mergeFragment slot g)) f)"
    using assms(2) by (auto simp: fn_arguments_mergeFragment)
qed simp

lemma accumulate_swap:
  assumes "d_name f = [] \<or> d_name g = []"
      and "d_arguments f = [] \<or> d_arguments g = []"
      and "d_id f = [] \<or> d_id g = [] \<or> d_id f = d_id g"
  shows "accumulate (accumulate acc f) g = accumulate (accumulate acc g) f"
proof -
  have "length (accumulate (accumulate acc f) g) = length (accumulate (accumulate acc g) f)"
    by (auto simp: length_accumulate)
  moreover have "js_get (accumulate (accumulate acc f) g) i =
                 js_get (accumulate (accumulate acc g) f) i" for i
    using mergeFragment_swap[OF assms, of "js_get acc i"] by (simp add: js_get_accumulate)
  ultimately show ?thesis by (simp add: js_ext)
qed

lemma js_get_foldl_accumulate:
  "js_get (foldl accumulate acc fs) i =
     foldl mergeStep (js_get acc i) (filter (\<lambda>f. d_index f = i) fs)"
  by (induction fs arbitrary: acc) (simp_all add: js_get_accumulate mergeStep_def)

lemma Max_max_cons: "Max (set (max a b # xs)) = Max (set (a # b # xs))" for a b :: nat
  by (cases "xs = []") (simp_all add: max.assoc)

lemma length_foldl_accumulate:
  "length (foldl accumulate acc fs) =
     Max (set (length acc # map (\<lambda>f. if d_type f = ''function'' then Suc (d_index f) else 0) fs))"
proof (induction fs arbitrary: acc)
  case Nil
  show ?case by simp
next
  case (Cons f fs)
  let ?g = "\<lambda>f. if d_type f = ''function'' then Suc (d_index f) else 0"
  have "length (foldl accumulate acc (f # fs)) =
        Max (set (length (accumulate acc f) # map ?g fs))"
    using Cons.IH by simp
  also have "length (accumulate acc f) = max (length acc) (?g f)"
    by (simp add: length_accumulate)
  also have "Max (set (max (length acc) (?g f) # map ?g fs)) =
             Max (set (length acc # map ?g (f # fs)))"
    unfolding list.map by (rule Max_max_cons)
  finally show ?case .
qed

lemma same_fragments:
  assumes "\<forall>i. filter (\<lambda>f. d_index f = i) fs = filter (\<lambda>f. d_index f = i) gs"
  shows "set fs = set gs"
proof -
  have "f \<in> set fs \<longleftrightarrow> f \<in> set gs" for f
  proof -
    have "f \<in> set fs \<longleftrightarrow> f \<in> set (filter (\<lambda>g. d_index g = d_index f) fs)" by simp
    also have "\<dots> \<longleftrightarrow> f \<in> set (filter (\<lambda>g. d_index g = d_index f) gs)" using assms by simp
    also have "\<dots> \<longleftrightarrow> f \<in> set gs" by simp
    finally show ?thesis .
  qed
  then show ?thesis by blast
qed

lemma accumulate_keyed_by_index:
  assumes "\<forall>i. filter (\<lambda>f. d_index f = i) fs = filter (\<lambda>f. d_index f = i) gs"
  shows "foldl accumulate acc fs = foldl accumulate acc gs"
proof -
  have s: "set fs = set gs" using assms by (rule same_fragments)
  have "length (foldl accumulate acc fs) = length (foldl accumulate acc gs)"
    by (simp only: length_foldl_accumulate list.set set_map s)
  moreover have "\<forall>i. js_get (foldl accumulate acc fs) i = js_get (foldl accumulate acc gs) i"
    using assms by (simp add: js_get_foldl_accumulate)
  ultimately show ?thesis by (simp add: js_ext)
qed

subsection \<open>Frames written by the relay\<close>

lemma handleEvent_frames:
  "\<exists>ts. frames (snd (handleEvent sr ev)) = frames (snd sr) @ map FText ts"
proof -
  have "snd (handleEvent sr ev) = snd sr \<or>
        (\<exists>t. snd (handleEvent sr ev) = res_write (FText t) (snd sr))"
    by (auto simp: handleEvent_def Let_def split: option.splits)
  then show ?thesis
  proof
    assume "snd (handleEvent sr ev) = snd sr"
    then have "frames (snd (handleEvent sr ev)) = frames (snd sr) @ map FText []" by simp
    then show ?thesis by blast
  next
    assume "\<exists>t. snd (handleEvent sr ev) = res_write (FText t) (snd sr)"
    then obtain t where "snd (handleEvent sr ev) = res_write (FText t) (snd sr)" by blast
    then have "frames (snd (handleEvent sr ev)) = frames (snd sr) @ map FText [t]"
      by (simp add: res_write_def)
    then show ?thesis by blast
  qed
qed

lemma foldl_handleEvent_frames:
  "\<exists>ts. frames (snd (foldl handleEvent sr evs)) = frames (snd sr) @ map FText ts"
proof (induction evs arbitrary: sr)
  case Nil
  have "frames (snd (foldl handleEvent sr [])) = frames (snd sr) @ map FText []" by simp
  then show ?case by blast
next
  case (Cons ev evs)
  obtain ts1 where 1: "frames (snd (handleEvent sr ev)) = frames (snd sr) @ map FText ts1"
    using handleEvent_frames by blast
  obtain ts2 where 2: "frames (snd (foldl handleEvent (handleEvent sr ev) evs)) =
       frames (snd (handleEvent sr ev)) @ map FText ts2"
    using Cons.IH by blast
  have "frames (snd (foldl handleEvent sr (ev # evs))) = frames (snd sr) @ map FText (ts1 @ ts2)"
    using 1 2 by simp
  then show ?case by blast
qed

lemma fst_handleEvent_indep:
  "fst (handleEvent (st, res) ev) = fst (handleEvent (st, res') ev)"
  by (simp add: handleEvent_def Let_def split: option.splits)

lemma fst_foldl_handleEvent_indep:
  "fst (foldl handleEvent (st, res) evs) = fst (foldl handleEvent (st, res') evs)"
proof (induction evs arbitrary: st res res')
  case Nil
  show ?case by simp
next
  case (Cons ev evs)
  obtain s1 r1 where a: "handleEvent (st, res) ev = (s1, r1)" by (cases "handleEvent (st, res) ev")
  obtain s2 r2 where b: "handleEvent (st, res') ev = (s2, r2)" by (cases "handleEvent (st, res') ev")
  have "s1 = s2" using fst_handleEvent_indep[of st res ev res'] a b by simp
  then show ?case using a b Cons.IH[of s1 r1 r2] by simp
qed

lemma fst_foldl_finalState:
  "fst (foldl handleEvent (stream_init, res) (events stream)) = finalState stream"
  unfolding finalState_def by (rule fst_foldl_handleEvent_indep)

lemma handleStream_normal:
  assumes "fault stream = None"
  shows "handleStream stream res =
     (let st = finalState stream; final = finalToolCalls (toolCalls st) in
      (\<lparr>res_runId = runId st, res_inputTokens = inputTokens st,
        res_outputTokens = outputTokens st, toolCallCount = length final,
        res_error = streamError st\<rparr>,
       res_end (res_write (FDone (runId st))
         (if final \<noteq> []
          then res_write (FToolCalls (runId st) final)
                 (snd (foldl handleEvent (stream_init, res) (events stream)))
          else snd (foldl handleEvent (stream_init, res) (events stream))))))"
proof -
  obtain st r1 where f: "foldl handleEvent (stream_init, res) (events stream) = (st, r1)"
    by (cases "foldl handleEvent (stream_init, res) (events stream)")
  then have "st = finalState stream" using fst_foldl_finalState[of res stream] by simp
  then show ?thesis using assms f by (simp add: handleStream_def Let_def)
qed

lemma handleStream_fault:
  assumes "fault stream = Some err"
  shows "handleStream stream res =
     (let st = finalState stream in
      (\<lparr>res_runId = runId st, res_inputTokens = inputTokens st,
        res_outputTokens = outputTokens st,
        toolCallCount = length (finalToolCalls (toolCalls st)),
        res_error = err\<rparr>,
       res_end (res_write (FError err)
          (snd (foldl handleEvent (stream_init, res) (events stream))))))"
proof -
  obtain st r1 where f: "foldl handleEvent (stream_init, res) (events stream) = (st, r1)"
    by (cases "foldl handleEvent (stream_init, res) (events stream)")
  then have "st = finalState stream" using fst_foldl_finalState[of res stream] by simp
  then show ?thesis using assms f by (simp add: handleStream_def Let_def)
qed

lemma handleStream_ended: "ended (snd (handleStream stream res))"
  by (cases "fault stream")
     (simp_all add: handleStream_normal handleStream_fault Let_def res_end_def)

lemma handleStream_runId: "res_runId (fst (handleStream stream res)) = runId (finalState stream)"
  by (cases "fault stream") (simp_all add: handleStream_normal handleStream_fault Let_def)

lemma handleStream_frames_normal:
  assumes "fault stream = None"
  shows "\<exists>ts. frames (snd (handleStream stream res)) =
           frames res @ map FText ts @
           (if finalToolCalls (toolCalls (finalState stream)) = [] then []
            else [FToolCalls (runId (finalState stream))
                    (finalToolCalls (toolCalls (finalState stream)))]) @
           [FDone (runId (finalState stream))]"
proof -
  obtain ts where "frames (snd (foldl handleEvent (stream_init, res) (events stream))) =
      frames res @ map FText ts"
    using foldl_handleEvent_frames[of "(stream_init, res)" "events stream"] by auto
  then have "frames (snd (handleStream stream res)) =
           frames res @ map FText ts @
           (if finalToolCalls (toolCalls (finalState stream)) = [] then []
            else [FToolCalls (runId (finalState stream))
                    (finalToolCalls (toolCalls (finalState stream)))]) @
           [FDone (runId (finalState stream))]"
    by (simp add: handleStream_normal[OF assms] Let_def res_end_def res_write_def)
  then show ?thesis by blast
qed

lemma handleStream_frames_fault:
  assumes "fault stream = Some err"
  shows "\<exists>ts. frames (snd (handleStream stream res)) = frames res @ map FText ts @ [FError err]"
proof -
  obtain ts where "frames (snd (foldl handleEvent (stream_init, res) (events stream))) =
      frames res @ map FText ts"
    using foldl_handleEvent_frames[of "(stream_init, res)" "events stream"] by auto
  then have "frames (snd (handleStream stream res)) = frames res @ map FText ts @ [FError err]"
    by (simp add: handleStream_fault[OF assms] Let_def res_end_def res_write_def)
  then show ?thesis by blast
qed

subsection \<open>Finalised calls\<close>

lemma finalToolCalls_ids: "c \<in> set (finalToolCalls tcs) \<Longrightarrow> call_id c \<noteq> []"
  by (auto simp: finalToolCalls_def List.map_filter_def split: option.splits if_splits)

lemma finalToolCalls_indices:
  "finalToolCalls tcs =
     map (\<lambda>i. the (tcs ! i)) (filter (\<lambda>i. hasId (tcs ! i)) [0..<length tcs])"
proof -
  let ?f = "\<lambda>t. case t of None \<Rightarrow> None | Some c \<Rightarrow> if call_id c \<noteq> [] then Some c else None"
  have 1: "(?f t \<noteq> None) = hasId t" for t
    by (simp add: hasId_def split: option.splits)
  have 2: "hasId t \<Longrightarrow> the (?f t) = the t" for t
    by (simp add: hasId_def split: option.splits)
  have "finalToolCalls tcs =
        map (\<lambda>i. the (?f (tcs ! i))) (filter (\<lambda>i. ?f (tcs ! i) \<noteq> None) [0..<length tcs])"
    unfolding finalToolCalls_def by (rule map_filter_via_indices)
  also have "\<dots> = map (\<lambda>i. the (?f (tcs ! i))) (filter (\<lambda>i. hasId (tcs ! i)) [0..<length tcs])"
    by (simp only: 1)
  also have "\<dots> = map (\<lambda>i. the (tcs ! i)) (filter (\<lambda>i. hasId (tcs ! i)) [0..<length tcs])"
    by (rule map_cong) (simp_all add: 2)
  finally show ?thesis .
qed

lemma length_finalToolCalls: "length (finalToolCalls tcs) = length (filter hasId tcs)"
proof -
  have "length (finalToolCalls tcs) = length (filter (\<lambda>i. hasId (tcs ! i)) [0..<length tcs])"
    by (simp add: finalToolCalls_indices)
  also have "\<dots> = length (map ((!) tcs) (filter (\<lambda>i. hasId (tcs ! i)) [0..<length tcs]))"
    by simp
  also have "\<dots> = length (filter hasId tcs)"
    by (simp only: filter_via_indices[symmetric])
  finally show ?thesis .
qed

lemma handleStream_toolCallCount:
  "toolCallCount (fst (handleStream stream res)) =
     length (finalToolCalls (toolCalls (finalState stream)))"
  by (cases "fault stream") (simp_all add: handleStream_normal handleStream_fault Let_def)

lemma handleStream_tool_calls_frame:
  assumes "FToolCalls rid calls \<in>
             set (drop (length (frames res)) (frames (snd (handleStream stream res))))"
  shows "calls = finalToolCalls (toolCalls (finalState stream))"
proof (cases "fault stream")
  case None
  from handleStream_frames_normal[OF None, of res] assms show ?thesis
    by (auto split: if_splits)
next
  case (Some err)
  from handleStream_frames_fault[OF Some, of res] assms show ?thesis
    by auto
qed

subsection \<open>The concrete streams\<close>

lemma accD: "foldl accumulate [] [fragD1, fragD2] = [Some callD]"
  by (simp add: fragD1_def fragD2_def callD_def accumulate_def mergeFragment_def js_get_def js_set_def)

lemma accD_swapped:
  \<open>foldl accumulate [] [fragD2, fragD1] =
     [Some \<lparr>call_id = ''call_1'', call_type = ''function'', fn_name = ''ileread_f'',
             fn_arguments = ''"a.txt"}{"path":''\<rparr>]\<close>
  by (simp add: fragD1_def fragD2_def accumulate_def mergeFragment_def js_get_def js_set_def)

lemma foldD:
  "foldl handleEvent (stream_init, res) [runEvent ''thread.run.created'' ''run_1'', stepDelta [fragD1], stepDelta [fragD2]]
     = (stream_init\<lparr>runId := ''run_1'', toolCalls := [Some callD]\<rparr>, res)"
  by (simp add: handleEvent_def captureRunId_def startsWith_def runEvent_def stepDelta_def stream_init_def
        accD[simplified] Let_def
        fragD1_def fragD2_def callD_def accumulate_def mergeFragment_def js_get_def js_set_def)

lemma finalD: "finalToolCalls [Some callD] = [callD]"
  by (simp add: finalToolCalls_def List.map_filter_def callD_def)

lemma handleStream_streamD:
  "handleStream streamD res_init =
     (\<lparr>res_runId = ''run_1'', res_inputTokens = 0, res_outputTokens = 0, toolCallCount = 1,
       res_error = None\<rparr>,
      \<lparr>headersSent = True, statusCode = 200, jsonBody = None,
       frames = [FToolCalls ''run_1'' [callD], FDone ''run_1''], ended = True\<rparr>)"
  by (simp only: handleStream_def streamD_def event_stream.simps foldD)
     (simp add: finalD stream_init_def res_init_def res_write_def res_end_def)

lemma handleStream_streamFault:
  "handleStream streamFault res_init =
     (\<lparr>res_runId = ''run_1'', res_inputTokens = 0, res_outputTokens = 0, toolCallCount = 1,
       res_error = Some ''socket hang up''\<rparr>,
      \<lparr>headersSent = True, statusCode = 200, jsonBody = None,
       frames = [FError (Some ''socket hang up'')], ended = True\<rparr>)"
  by (simp only: handleStream_def streamFault_def event_stream.simps foldD)
     (simp add: finalD stream_init_def res_init_def res_write_def res_end_def)

lemma finalState_streamD: "finalState streamD = stream_init\<lparr>runId := ''run_1'', toolCalls := [Some callD]\<rparr>"
  by (simp only: finalState_def streamD_def event_stream.simps foldD fst_conv)

lemma finalState_streamFault: "finalState streamFault = stream_init\<lparr>runId := ''run_1'', toolCalls := [Some callD]\<rparr>"
  by (simp only: finalState_def streamFault_def event_stream.simps foldD fst_conv)

lemma foldA:
  "foldl handleEvent (stream_init, res) (events streamA)
     = (stream_init\<lparr>runId := ''run_1''\<rparr>,
        res\<lparr>headersSent := True, frames := frames res @ [FText ''Here'', FText '' are the files'']\<rparr>)"
  by (simp add: streamA_def handleEvent_def captureRunId_def startsWith_def runEvent_def textDelta_def stream_init_def
        Let_def res_write_def)

lemma handleStream_streamA:
  "handleStream streamA res =
     (\<lparr>res_runId = ''run_1'', res_inputTokens = 0, res_outputTokens = 0, toolCallCount = 0,
       res_error = None\<rparr>,
      res\<lparr>headersSent := True,
          frames := frames res @ [FText ''Here'', FText '' are the files'', FDone ''run_1''],
          ended := True\<rparr>)"
proof -
  have "fault streamA = None" by (simp add: streamA_def)
  then show ?thesis
    by (simp add: handleStream_def foldA)
       (simp add: finalToolCalls_def List.map_filter_def stream_init_def res_write_def res_end_def)
qed

lemma finalState_streamA: "finalState streamA = stream_init\<lparr>runId := ''run_1''\<rparr>"
  by (simp only: finalState_def foldA fst_conv)

section \<open>Claims about the stream relay\<close>

text \<open>
  Claim C3. Whatever the provider sends, the relay ends the output sequence. When the
  event sequence ends normally the frames written are text frames, at most one
  \<open>tool_calls\<close> frame, and last a \<open>done\<close> frame carrying the run id that is also
  returned to the caller (it may be empty); when consumption aborts with a fault the
  frames written are text frames and last an \<open>error\<close> frame carrying the fault's
  message, with no \<open>done\<close> frame.
\<close>

theorem relay_terminal_frame:
  "ended (snd (handleStream stream res)) \<and>
   (fault stream = None \<longrightarrow>
      (\<exists>ts tc. frames (snd (handleStream stream res)) =
                 frames res @ map FText ts @ tc @
                 [FDone (res_runId (fst (handleStream stream res)))] \<and>
               (tc = [] \<or>
                (\<exists>calls. tc = [FToolCalls (res_runId (fst (handleStream stream res))) calls])))) \<and>
   (\<forall>err. fault stream = Some err \<longrightarrow>
      (\<exists>ts. frames (snd (handleStream stream res)) = frames res @ map FText ts @ [FError err]))"
proof (intro conjI impI allI)
  show "ended (snd (handleStream stream res))" by (rule handleStream_ended)
next
  assume n: "fault stream = None"
  let ?rid = "res_runId (fst (handleStream stream res))"
  let ?final = "finalToolCalls (toolCalls (finalState stream))"
  let ?tc = "if ?final = [] then [] else [FToolCalls ?rid ?final]"
  obtain ts where "frames (snd (handleStream stream res)) =
      frames res @ map FText ts @ ?tc @ [FDone ?rid]"
    using handleStream_frames_normal[OF n, of res] by (auto simp: handleStream_runId)
  moreover have "?tc = [] \<or> (\<exists>calls. ?tc = [FToolCalls ?rid calls])" by simp
  ultimately show "\<exists>ts tc. frames (snd (handleStream stream res)) =
                 frames res @ map FText ts @ tc @ [FDone ?rid] \<and>
               (tc = [] \<or> (\<exists>calls. tc = [FToolCalls ?rid calls]))"
    by blast
next
  fix err assume "fault stream = Some err"
  then show "\<exists>ts. frames (snd (handleStream stream res)) = frames res @ map FText ts @ [FError err]"
    by (rule handleStream_frames_fault)
qed

theorem relay_terminal_frame_witness:
  "fault streamD = None \<and> fault streamFault = Some (Some ''socket hang up'') \<and>
   ended (snd (handleStream streamD res_init)) \<and>
   (\<exists>ts tc. frames (snd (handleStream streamD res_init)) =
              frames res_init @ map FText ts @ tc @
              [FDone (res_runId (fst (handleStream streamD res_init)))] \<and>
            (tc = [] \<or>
             (\<exists>calls. tc = [FToolCalls (res_runId (fst (handleStream streamD res_init))) calls]))) \<and>
   (\<exists>ts. frames (snd (handleStream streamFault res_init)) =
      frames res_init @ map FText ts @ [FError (Some ''socket hang up'')])"
proof -
  have a: "fault streamD = None" by (simp add: streamD_def)
  have b: "fault streamFault = Some (Some ''socket hang up'')" by (simp add: streamFault_def)
  show ?thesis
    using a b relay_terminal_frame[of streamD res_init] relay_terminal_frame[of streamFault res_init]
    by blast
qed

text \<open>
  Claim C4. Every call listed in a \<open>tool_calls\<close> frame that the relay writes has a
  non-empty id; the calls listed are the accumulator slots with a non-empty id, taken in
  strictly ascending index order, so a slot that is a hole or whose id is still empty at
  the end of the stream is in no frame; and the \<open>toolCallCount\<close> returned to the
  caller is the number of slots with a non-empty id.
\<close>

theorem tool_calls_frame_ids_ascending:
  "(\<forall>rid calls.
      FToolCalls rid calls \<in>
        set (drop (length (frames res)) (frames (snd (handleStream stream res)))) \<longrightarrow>
        (\<forall>c \<in> set calls. call_id c \<noteq> []) \<and>
        (\<exists>is. sorted_wrt (<) is \<and>
              calls = map (\<lambda>i. the (js_get (toolCalls (finalState stream)) i)) is \<and>
              set is = {i. hasId (js_get (toolCalls (finalState stream)) i)})) \<and>
   toolCallCount (fst (handleStream stream res)) =
     length (filter hasId (toolCalls (finalState stream)))"
proof (intro conjI allI impI)
  let ?tcs = "toolCalls (finalState stream)"
  show "toolCallCount (fst (handleStream stream res)) = length (filter hasId ?tcs)"
    by (simp add: handleStream_toolCallCount length_finalToolCalls)
  fix rid calls
  assume a: "FToolCalls rid calls \<in>
               set (drop (length (frames res)) (frames (snd (handleStream stream res))))"
  have calls: "calls = finalToolCalls ?tcs"
    using a by (rule handleStream_tool_calls_frame)
  show "\<forall>c \<in> set calls. call_id c \<noteq> []"
    using calls finalToolCalls_ids by blast
  let ?is = "filter (\<lambda>i. hasId (?tcs ! i)) [0..<length ?tcs]"
  have 1: "sorted_wrt (<) ?is" by (rule sorted_wrt_filter) simp
  have 2: "calls = map (\<lambda>i. the (js_get ?tcs i)) ?is"
    unfolding calls finalToolCalls_indices by (rule map_cong) (simp_all add: js_get_def)
  have 3: "set ?is = {i. hasId (js_get ?tcs i)}"
    by (auto simp: js_get_def hasId_def)
  show "\<exists>is. sorted_wrt (<) is \<and> calls = map (\<lambda>i. the (js_get ?tcs i)) is \<and>
              set is = {i. hasId (js_get ?tcs i)}"
    using 1 2 3 by blast
qed

theorem tool_calls_frame_ids_ascending_witness:
  "FToolCalls ''run_1'' [callD] \<in>
     set (drop (length (frames res_init)) (frames (snd (handleStream streamD res_init)))) \<and>
   call_id callD \<noteq> [] \<and>
   (\<exists>is. sorted_wrt (<) is \<and>
         [callD] = map (\<lambda>i. the (js_get (toolCalls (finalState streamD)) i)) is \<and>
         set is = {i. hasId (js_get (toolCalls (finalState streamD)) i)}) \<and>
   toolCallCount (fst (handleStream streamD res_init)) =
     length (filter hasId (toolCalls (finalState streamD)))"
proof -
  have m: "FToolCalls ''run_1'' [callD] \<in>
     set (drop (length (frames res_init)) (frames (snd (handleStream streamD res_init))))"
    by (simp only: handleStream_streamD) (simp add: res_init_def)
  show ?thesis
    using m tool_calls_frame_ids_ascending[of res_init streamD] by auto
qed

text \<open>
  Claim C6, as stated: the accumulated call does not depend on the arrival order of the
  fragments. It fails for the two fragments of Scenario D: delivered in the other order
  they give the name \<open>ileread_f\<close>.
\<close>

theorem arrival_order_counterexample:
  "foldl accumulate [] [fragD2, fragD1] \<noteq> foldl accumulate [] [fragD1, fragD2]"
  by (simp only: accD accD_swapped) (simp add: callD_def)

text \<open>
  Claim C6, amended. Accumulation is keyed by index: two fragment sequences that agree,
  for every index, on the sub-sequence of fragments carrying that index give the same
  accumulator, so fragments of different indexes may be interleaved in any order. Two
  neighbouring fragments may also be exchanged when at most one of them carries name
  text, at most one carries argument text, and they do not carry two different ids.
  Name pieces among themselves, and argument pieces among themselves, concatenate in
  arrival order.
\<close>

theorem accumulation_keyed_by_index:
  "((\<forall>i. filter (\<lambda>f. d_index f = i) fs = filter (\<lambda>f. d_index f = i) gs) \<longrightarrow>
      foldl accumulate acc fs = foldl accumulate acc gs) \<and>
   ((d_name f = [] \<or> d_name g = []) \<and> (d_arguments f = [] \<or> d_arguments g = []) \<and>
    (d_id f = [] \<or> d_id g = [] \<or> d_id f = d_id g) \<longrightarrow>
      foldl accumulate acc (xs @ [f, g] @ ys) = foldl accumulate acc (xs @ [g, f] @ ys)) \<and>
   js_get (foldl accumulate acc fs) i =
     foldl mergeStep (js_get acc i) (filter (\<lambda>f. d_index f = i) fs)"
proof (intro conjI impI)
  assume "\<forall>i. filter (\<lambda>f. d_index f = i) fs = filter (\<lambda>f. d_index f = i) gs"
  then show "foldl accumulate acc fs = foldl accumulate acc gs"
    by (rule accumulate_keyed_by_index)
next
  assume a: "(d_name f = [] \<or> d_name g = []) \<and> (d_arguments f = [] \<or> d_arguments g = []) \<and>
    (d_id f = [] \<or> d_id g = [] \<or> d_id f = d_id g)"
  have "accumulate (accumulate (foldl accumulate acc xs) f) g =
        accumulate (accumulate (foldl accumulate acc xs) g) f"
    using a by (intro accumulate_swap) simp_all
  then show "foldl accumulate acc (xs @ [f, g] @ ys) = foldl accumulate acc (xs @ [g, f] @ ys)"
    by simp
next
  show "js_get (foldl accumulate acc fs) i =
     foldl mergeStep (js_get acc i) (filter (\<lambda>f. d_index f = i) fs)"
    by (rule js_get_foldl_accumulate)
qed

theorem accumulation_keyed_by_index_witness:
  "(\<forall>i. filter (\<lambda>f. d_index f = i) [fragName, fragOther] =
        filter (\<lambda>f. d_index f = i) [fragOther, fragName]) \<and>
   foldl accumulate [] [fragName, fragOther] = foldl accumulate [] [fragOther, fragName] \<and>
   (d_name fragName = [] \<or> d_name fragArgs = []) \<and>
   (d_arguments fragName = [] \<or> d_arguments fragArgs = []) \<and>
   (d_id fragName = [] \<or> d_id fragArgs = [] \<or> d_id fragName = d_id fragArgs) \<and>
   foldl accumulate [] ([] @ [fragName, fragArgs] @ [fragOther]) =
     foldl accumulate [] ([] @ [fragArgs, fragName] @ [fragOther])"
proof -
  have h1: "\<forall>i. filter (\<lambda>f. d_index f = i) [fragName, fragOther] =
        filter (\<lambda>f. d_index f = i) [fragOther, fragName]"
    by (simp add: fragName_def fragOther_def)
  have h2: "(d_name fragName = [] \<or> d_name fragArgs = []) \<and>
   (d_arguments fragName = [] \<or> d_arguments fragArgs = []) \<and>
   (d_id fragName = [] \<or> d_id fragArgs = [] \<or> d_id fragName = d_id fragArgs)"
    by (simp add: fragName_def fragArgs_def)
  show ?thesis
    using h1 h2
      accumulation_keyed_by_index[of "[fragName, fragOther]" "[fragOther, fragName]" "[]"
        fragName fragArgs "[]" "[fragOther]" 0]
    by blast
qed

text \<open>
  Claim C7 (Scenario D). The function fragments
  \<open>{index 0, id "call_1", name "read_f", arguments "{\"path\":"}\<close> and
  \<open>{index 0, name "ile", arguments "\"a.txt\"}"}\<close>, delivered in this order, leave
  in slot 0 the call with id \<open>call_1\<close>, name \<open>read_file\<close> and arguments
  \<open>{"path":"a.txt"}\<close>; a stream that delivers them in two step deltas and ends
  sends exactly that call to the client.
\<close>

theorem scenario_D_reconstruction:
  \<open>foldl accumulate [] [fragD1, fragD2] =
     [Some \<lparr>call_id = ''call_1'', call_type = ''function'', fn_name = ''read_file'',
             fn_arguments = ''{"path":"a.txt"}''\<rparr>] \<and>
   js_get (toolCalls (finalState streamD)) 0 =
     Some \<lparr>call_id = ''call_1'', call_type = ''function'', fn_name = ''read_file'',
            fn_arguments = ''{"path":"a.txt"}''\<rparr> \<and>
   frames (snd (handleStream streamD res_init)) =
     [FToolCalls ''run_1''
        [\<lparr>call_id = ''call_1'', call_type = ''function'', fn_name = ''read_file'',
          fn_arguments = ''{"path":"a.txt"}''\<rparr>],
      FDone ''run_1'']\<close>
proof (intro conjI)
  show \<open>foldl accumulate [] [fragD1, fragD2] =
     [Some \<lparr>call_id = ''call_1'', call_type = ''function'', fn_name = ''read_file'',
             fn_arguments = ''{"path":"a.txt"}''\<rparr>]\<close>
    by (simp only: accD) (simp add: callD_def)
  show \<open>js_get (toolCalls (finalState streamD)) 0 =
     Some \<lparr>call_id = ''call_1'', call_type = ''function'', fn_name = ''read_file'',
            fn_arguments = ''{"path":"a.txt"}''\<rparr>\<close>
    by (simp only: finalState_streamD) (simp add: js_get_def callD_def)
  show \<open>frames (snd (handleStream streamD res_init)) =
     [FToolCalls ''run_1''
        [\<lparr>call_id = ''call_1'', call_type = ''function'', fn_name = ''read_file'',
          fn_arguments = ''{"path":"a.txt"}''\<rparr>],
      FDone ''run_1'']\<close>
    by (simp only: handleStream_streamD) (simp add: callD_def)
qed

text \<open>
  Claim C9, as stated: a \<open>tool_calls\<close> frame is written exactly when at least one
  finalised call exists. It fails when consumption aborts with a fault: the stream below
  has accumulated one call with a non-empty id (and reports \<open>toolCallCount = 1\<close>), yet
  the only frame written is the \<open>error\<close> frame.
\<close>

theorem tool_calls_frame_counterexample:
  "finalToolCalls (toolCalls (finalState streamFault)) = [callD] \<and>
   toolCallCount (fst (handleStream streamFault res_init)) = 1 \<and>
   frames (snd (handleStream streamFault res_init)) = [FError (Some ''socket hang up'')]"
  by (simp only: handleStream_streamFault finalState_streamFault) (simp add: finalD)

text \<open>
  Claim C9, amended. When the event sequence ends normally, a \<open>tool_calls\<close> frame is
  written exactly when at least one accumulated call has a non-empty id: after the text
  frames the client receives that frame, if there is such a call, and then the \<open>done\<close>
  frame, and nothing else. When consumption aborts with a fault, no \<open>tool_calls\<close>
  frame is written, whatever has been accumulated: after the text frames the client
  receives only the \<open>error\<close> frame.
\<close>

theorem tool_calls_frame_on_normal_end:
  "(fault stream = None \<longrightarrow>
      (\<exists>ts. frames (snd (handleStream stream res)) =
         frames res @ map FText ts @
         (if finalToolCalls (toolCalls (finalState stream)) = [] then []
          else [FToolCalls (runId (finalState stream))
                  (finalToolCalls (toolCalls (finalState stream)))]) @
         [FDone (runId (finalState stream))]) \<and>
      ((\<exists>rid calls. FToolCalls rid calls \<in>
           set (drop (length (frames res)) (frames (snd (handleStream stream res))))) \<longleftrightarrow>
       finalToolCalls (toolCalls (finalState stream)) \<noteq> [])) \<and>
   (\<forall>err. fault stream = Some err \<longrightarrow>
      (\<exists>ts. frames (snd (handleStream stream res)) = frames res @ map FText ts @ [FError err]) \<and>
      \<not> (\<exists>rid calls. FToolCalls rid calls \<in>
           set (drop (length (frames res)) (frames (snd (handleStream stream res))))))"
proof (intro conjI impI allI)
  assume n: "fault stream = None"
  show "\<exists>ts. frames (snd (handleStream stream res)) =
         frames res @ map FText ts @
         (if finalToolCalls (toolCalls (finalState stream)) = [] then []
          else [FToolCalls (runId (finalState stream))
                  (finalToolCalls (toolCalls (finalState stream)))]) @
         [FDone (runId (finalState stream))]"
    using n by (rule handleStream_frames_normal)
  then obtain ts where ts: "frames (snd (handleStream stream res)) =
         frames res @ map FText ts @
         (if finalToolCalls (toolCalls (finalState stream)) = [] then []
          else [FToolCalls (runId (finalState stream))
                  (finalToolCalls (toolCalls (finalState stream)))]) @
         [FDone (runId (finalState stream))]" by blast
  show "(\<exists>rid calls. FToolCalls rid calls \<in>
           set (drop (length (frames res)) (frames (snd (handleStream stream res))))) \<longleftrightarrow>
       finalToolCalls (toolCalls (finalState stream)) \<noteq> []"
  proof (cases "finalToolCalls (toolCalls (finalState stream)) = []")
    case True
    then show ?thesis using ts by auto
  next
    case False
    then have "FToolCalls (runId (finalState stream)) (finalToolCalls (toolCalls (finalState stream)))
        \<in> set (drop (length (frames res)) (frames (snd (handleStream stream res))))"
      using ts by simp
    then show ?thesis using False by blast
  qed
next
  fix err assume f: "fault stream = Some err"
  show "\<exists>ts. frames (snd (handleStream stream res)) = frames res @ map FText ts @ [FError err]"
    using f by (rule handleStream_frames_fault)
  then show "\<not> (\<exists>rid calls. FToolCalls rid calls \<in>
           set (drop (length (frames res)) (frames (snd (handleStream stream res)))))"
    by auto
qed

theorem tool_calls_frame_on_normal_end_witness:
  "fault streamA = None \<and> finalToolCalls (toolCalls (finalState streamA)) = [] \<and>
   (\<exists>ts. frames (snd (handleStream streamA res_init)) =
      frames res_init @ map FText ts @ [] @ [FDone (runId (finalState streamA))]) \<and>
   fault streamD = None \<and>
   (\<exists>rid calls. FToolCalls rid calls \<in>
      set (drop (length (frames res_init)) (frames (snd (handleStream streamD res_init))))) \<and>
   finalToolCalls (toolCalls (finalState streamD)) \<noteq> [] \<and>
   fault streamFault = Some (Some ''socket hang up'') \<and>
   \<not> (\<exists>rid calls. FToolCalls rid calls \<in>
      set (drop (length (frames res_init)) (frames (snd (handleStream streamFault res_init)))))"
proof -
  have a: "fault streamA = None" by (simp add: streamA_def)
  have a': "finalToolCalls (toolCalls (finalState streamA)) = []"
    by (simp only: finalState_streamA) (simp add: stream_init_def finalToolCalls_def List.map_filter_def)
  have d: "fault streamD = None" by (simp add: streamD_def)
  have d': "finalToolCalls (toolCalls (finalState streamD)) \<noteq> []"
    by (simp only: finalState_streamD) (simp add: finalD)
  have e: "fault streamFault = Some (Some ''socket hang up'')" by (simp add: streamFault_def)
  show ?thesis
    using a a' d d' e
      tool_calls_frame_on_normal_end[of streamA res_init]
      tool_calls_frame_on_normal_end[of streamD res_init]
      tool_calls_frame_on_normal_end[of streamFault res_init]
    by (simp del: append_Nil)
qed

section \<open>Properties of run coordination and usage reconciliation\<close>

declare pollCancelled.simps [simp del]

declare usagePoll.simps [simp del]

lemma invoke_trace: "invoke k m w = (r, w') \<Longrightarrow> trace w' = trace w @ [k]"
  by (auto simp: invoke_def record_call_def split: prod.splits)

lemma call_retrieve_trace: "call_retrieve c tid rid w = (r, w') \<Longrightarrow> trace w' = trace w @ [CallRetrieve tid rid]"
  unfolding call_retrieve_def by (rule invoke_trace)

lemma call_cancel_trace: "call_cancel c tid rid w = (r, w') \<Longrightarrow> trace w' = trace w @ [CallCancel tid rid]"
  unfolding call_cancel_def by (rule invoke_trace)

lemma call_list_trace: "call_list c tid lim w = (r, w') \<Longrightarrow> trace w' = trace w @ [CallList tid lim]"
  unfolding call_list_def by (rule invoke_trace)

lemma call_create_trace: "call_create c tid msg w = (r, w') \<Longrightarrow> trace w' = trace w @ [CallCreateMessage tid msg]"
  unfolding call_create_def by (rule invoke_trace)

lemma sleep_trace: "trace (sleep ms w) = trace w @ [CallSleep ms]"
  by (simp add: sleep_def record_call_def)

lemma pollCancelled_trace:
  "\<exists>ps. trace (snd (pollCancelled c tid rid i w)) = trace w @ ps \<and> pollShape tid rid (10 - i) ps"
proof (induction c tid rid i w rule: pollCancelled.induct)
  case (1 c tid rid i w)
  show ?case
  proof (cases "i < 10")
    case False
    then have "pollCancelled c tid rid i w = (Inr (), w)" by (simp add: pollCancelled.simps)
    then have "trace (snd (pollCancelled c tid rid i w)) = trace w @ [] \<and> pollShape tid rid (10 - i) []" by simp
    then show ?thesis by blast
  next
    case True
    obtain got w1 where got: "call_retrieve c tid rid w = (got, w1)" by (cases "call_retrieve c tid rid w")
    have t1: "trace w1 = trace w @ [CallRetrieve tid rid]" using got by (rule call_retrieve_trace)
    show ?thesis
    proof (cases got)
      case (Inl e)
      then have "pollCancelled c tid rid i w = (Inl e, w1)"
        using True got by (simp add: pollCancelled.simps[of c tid rid i w])
      then have "trace (snd (pollCancelled c tid rid i w)) = trace w @ [CallRetrieve tid rid]
                 \<and> pollShape tid rid (10 - i) [CallRetrieve tid rid]"
        using t1 True by simp
      then show ?thesis by blast
    next
      case (Inr rr)
      show ?thesis
      proof (cases "isRunActive (run_status rr)")
        case False
        then have "pollCancelled c tid rid i w = (Inr (), w1)"
          using True got Inr by (simp add: pollCancelled.simps[of c tid rid i w])
        then have "trace (snd (pollCancelled c tid rid i w)) = trace w @ [CallRetrieve tid rid]
                 \<and> pollShape tid rid (10 - i) [CallRetrieve tid rid]"
          using t1 True by simp
        then show ?thesis by blast
      next
        case act: True
        have eq: "pollCancelled c tid rid i w = pollCancelled c tid rid (Suc i) (sleep 250 w1)"
          using True got Inr act by (simp add: pollCancelled.simps[of c tid rid i w])
        obtain ps where ps: "trace (snd (pollCancelled c tid rid (Suc i) (sleep 250 w1))) = trace (sleep 250 w1) @ ps"
            "pollShape tid rid (10 - Suc i) ps"
          using "1.IH"[OF True got[symmetric] Inr] act by auto
        have "trace (snd (pollCancelled c tid rid i w)) = trace w @ (CallRetrieve tid rid # CallSleep 250 # ps)"
          using eq ps(1) t1 by (simp add: sleep_trace)
        moreover have "pollShape tid rid (10 - i) (CallRetrieve tid rid # CallSleep 250 # ps)"
          using ps(2) True by simp
        ultimately show ?thesis by blast
      qed
    qed
  qed
qed

lemma pollShape_set: "pollShape tid rid n ps \<Longrightarrow> k \<in> set ps \<Longrightarrow> k = CallRetrieve tid rid \<or> k = CallSleep 250"
  by (induction tid rid n ps rule: pollShape.induct) auto



lemma cancelCall_mono: "cancelCall tid ids k \<Longrightarrow> set ids \<subseteq> set ids' \<Longrightarrow> cancelCall tid ids' k"
  by (auto simp: cancelCall_def split: call.splits)

lemma cancelEach_calls:
  "\<exists>ts. trace (snd (cancelEach c tid ex data w)) = trace w @ ts \<and>
        list_all (cancelCall tid (map run_id (filter (eligible ex) data))) ts"
proof (induction data arbitrary: w)
  case Nil
  have "trace (snd (cancelEach c tid ex [] w)) = trace w @ [] \<and>
        list_all (cancelCall tid (map run_id (filter (eligible ex) []))) []" by simp
  then show ?case by blast
next
  case (Cons r rs)
  let ?ids = "map run_id (filter (eligible ex) (r # rs))"
  have mono: "list_all (cancelCall tid (map run_id (filter (eligible ex) rs))) ts \<Longrightarrow> list_all (cancelCall tid ?ids) ts" for ts
    by (auto simp: list_all_iff intro: cancelCall_mono)
  have tail: "\<exists>ts. trace (snd (cancelEach c tid ex rs v)) = trace v @ ts \<and> list_all (cancelCall tid ?ids) ts" for v
    using Cons.IH[of v] mono by blast
  show ?case
  proof (cases "eligible ex r \<and> has_cancel c")
    case False
    then have "cancelEach c tid ex (r # rs) w = cancelEach c tid ex rs w"
      by (auto simp: eligible_def)
    then show ?thesis using tail[of w] by simp
  next
    case True
    then have el: "run_id r \<noteq> []" "Some (run_id r) \<noteq> ex" "isRunActive (run_status r)" "has_cancel c"
      by (simp_all add: eligible_def)
    have inids: "run_id r \<in> set ?ids" using True by simp
    obtain g w1 where g: "call_cancel c tid (run_id r) w = (g, w1)" by (cases "call_cancel c tid (run_id r) w")
    have t1: "trace w1 = trace w @ [CallCancel tid (run_id r)]" using g by (rule call_cancel_trace)
    have c1: "cancelCall tid ?ids (CallCancel tid (run_id r))" using inids by (simp add: cancelCall_def)
    show ?thesis
    proof (cases g)
      case (Inl e)
      then have "cancelEach c tid ex (r # rs) w = (Inl e, w1)" using el g by simp
      then have "trace (snd (cancelEach c tid ex (r # rs) w)) = trace w @ [CallCancel tid (run_id r)]
          \<and> list_all (cancelCall tid ?ids) [CallCancel tid (run_id r)]" using t1 c1 by simp
      then show ?thesis by blast
    next
      case (Inr u1)
      show ?thesis
      proof (cases "has_retrieve c")
        case False
        then have eq: "cancelEach c tid ex (r # rs) w = cancelEach c tid ex rs w1" using el g Inr by simp
        obtain ts where ts: "trace (snd (cancelEach c tid ex rs w1)) = trace w1 @ ts" "list_all (cancelCall tid ?ids) ts"
          using tail[of w1] by blast
        have "trace (snd (cancelEach c tid ex (r # rs) w)) = trace w @ (CallCancel tid (run_id r) # ts)
          \<and> list_all (cancelCall tid ?ids) (CallCancel tid (run_id r) # ts)"
          using eq ts t1 c1 by simp
        then show ?thesis by blast
      next
        case hr: True
        obtain q w2 where q: "pollCancelled c tid (run_id r) 0 w1 = (q, w2)"
          by (cases "pollCancelled c tid (run_id r) 0 w1")
        obtain ps where ps: "trace w2 = trace w1 @ ps" "pollShape tid (run_id r) 10 ps"
          using pollCancelled_trace[of c tid "run_id r" 0 w1] q by auto
        have c2: "cancelCall tid ?ids (CallRetrieve tid (run_id r))" using inids by (simp add: cancelCall_def)
        have c3: "cancelCall tid ?ids (CallSleep 250)" by (simp add: cancelCall_def)
        have psok: "list_all (cancelCall tid ?ids) ps"
          unfolding list_all_iff
        proof
          fix k assume "k \<in> set ps"
          then have "k = CallRetrieve tid (run_id r) \<or> k = CallSleep 250" by (rule pollShape_set[OF ps(2)])
          then show "cancelCall tid ?ids k" using c2 c3 by blast
        qed
        show ?thesis
        proof (cases q)
          case (Inl e)
          then have "cancelEach c tid ex (r # rs) w = (Inl e, w2)" using el g Inr hr q by simp
          then have "trace (snd (cancelEach c tid ex (r # rs) w)) = trace w @ (CallCancel tid (run_id r) # ps)
            \<and> list_all (cancelCall tid ?ids) (CallCancel tid (run_id r) # ps)"
            using t1 ps(1) c1 psok by simp
          then show ?thesis by blast
        next
          case (Inr u2)
          then have eq: "cancelEach c tid ex (r # rs) w = cancelEach c tid ex rs w2"
            using el g \<open>g = Inr u1\<close> hr q by simp
          obtain ts where ts: "trace (snd (cancelEach c tid ex rs w2)) = trace w2 @ ts" "list_all (cancelCall tid ?ids) ts"
            using tail[of w2] by blast
          have "trace (snd (cancelEach c tid ex (r # rs) w)) = trace w @ (CallCancel tid (run_id r) # ps @ ts)
            \<and> list_all (cancelCall tid ?ids) (CallCancel tid (run_id r) # ps @ ts)"
            using eq ts t1 ps(1) c1 psok by simp
          then show ?thesis by blast
        qed
      qed
    qed
  qed
qed





lemma cancelActiveRuns_calls:
  "\<exists>ts. trace (snd (cancelActiveRuns c tid ex w)) = trace w @ ts \<and>
        (ts = [] \<or>
         (\<exists>got p1. runs_list c tid 10 (provider w) = (got, p1) \<and>
            (case got of
               Inl e \<Rightarrow> ts = [CallList tid 10]
             | Inr data \<Rightarrow> \<exists>cs. ts = CallList tid 10 # cs \<and>
                  list_all (cancelCall tid (map run_id (filter (eligible ex) data))) cs)))"
proof (cases "has_list c")
  case False
  then have "trace (snd (cancelActiveRuns c tid ex w)) = trace w @ []" by (simp add: cancelActiveRuns_def)
  then show ?thesis by blast
next
  case True
  obtain got p1 where rl: "runs_list c tid 10 (provider w) = (got, p1)" by (cases "runs_list c tid 10 (provider w)")
  then obtain w1 where l: "call_list c tid 10 w = (got, w1)" by (simp add: call_list_def invoke_def)
  have t1: "trace w1 = trace w @ [CallList tid 10]" using l by (rule call_list_trace)
  show ?thesis
  proof (cases got)
    case (Inl e)
    then have "trace (snd (cancelActiveRuns c tid ex w)) = trace w @ [CallList tid 10]"
      using True l t1 by (simp add: cancelActiveRuns_def)
    then show ?thesis using rl Inl by auto
  next
    case (Inr data)
    then have eq: "cancelActiveRuns c tid ex w = cancelEach c tid ex data w1"
      using True l by (simp add: cancelActiveRuns_def)
    obtain cs where cs: "trace (snd (cancelEach c tid ex data w1)) = trace w1 @ cs"
       "list_all (cancelCall tid (map run_id (filter (eligible ex) data))) cs"
      using cancelEach_calls[of c tid ex data w1] by blast
    have "trace (snd (cancelActiveRuns c tid ex w)) = trace w @ (CallList tid 10 # cs)"
      using eq cs(1) t1 by simp
    then show ?thesis using rl Inr cs(2) by auto
  qed
qed

lemma usagePoll_done: "\<not> i < 6 \<Longrightarrow> usagePoll c tid rid i lastRun w = (Exhausted lastRun, w)"
  by (simp add: usagePoll.simps)

lemma usagePoll_step:
  assumes "i < 6" and "call_retrieve c tid rid w = (got, w1)"
  shows "usagePoll c tid rid i lastRun w =
     (let lastRun1 = (case got of Inl e \<Rightarrow> None | Inr r \<Rightarrow> Some r)
      in case usageTokens lastRun1 of
           Some t \<Rightarrow> (Returned (Some t), w1)
         | None \<Rightarrow>
             if stillActive lastRun1 then (Returned None, w1)
             else usagePoll c tid rid (Suc i) lastRun1 (if i < 5 then sleep 250 w1 else w1))"
  using assms by (simp add: usagePoll.simps[of c tid rid i lastRun w])

lemma usagePoll_trace:
  "i < 6 \<Longrightarrow>
   \<exists>ps. trace (snd (usagePoll c tid rid i lastRun w)) = trace w @ ps \<and> usageShape tid rid (6 - i) ps"
proof (induction c tid rid i lastRun w rule: usagePoll.induct)
  case (1 c tid rid i lastRun w)
  obtain got w1 where got: "call_retrieve c tid rid w = (got, w1)" by (cases "call_retrieve c tid rid w")
  have t1: "trace w1 = trace w @ [CallRetrieve tid rid]" using got by (rule call_retrieve_trace)
  let ?l1 = "case got of Inl e \<Rightarrow> None | Inr r \<Rightarrow> Some r"
  have one: "trace w1 = trace w @ [CallRetrieve tid rid] \<and> usageShape tid rid (6 - i) [CallRetrieve tid rid]"
    using t1 "1.prems" by simp
  show ?case
  proof (cases "usageTokens ?l1")
    case (Some t)
    then have "usagePoll c tid rid i lastRun w = (Returned (Some t), w1)"
      using usagePoll_step[OF "1.prems" got] by simp
    then show ?thesis using one by (metis snd_conv)
  next
    case None
    show ?thesis
    proof (cases "stillActive ?l1")
      case True
      then have "usagePoll c tid rid i lastRun w = (Returned None, w1)"
        using usagePoll_step[OF "1.prems" got] None by simp
      then show ?thesis using one by (metis snd_conv)
    next
      case False
      let ?w2 = "if i < 5 then sleep 250 w1 else w1"
      have eq: "usagePoll c tid rid i lastRun w = usagePoll c tid rid (Suc i) ?l1 ?w2"
        using usagePoll_step[OF "1.prems" got] None False by simp
      show ?thesis
      proof (cases "i < 5")
        case lt: True
        then have "Suc i < 6" by simp
        from "1.IH"[OF "1.prems" got[symmetric] refl None False this]
        obtain ps where ps: "trace (snd (usagePoll c tid rid (Suc i) ?l1 ?w2)) = trace ?w2 @ ps"
           "usageShape tid rid (6 - Suc i) ps" by blast
        have "trace (snd (usagePoll c tid rid i lastRun w)) = trace w @ (CallRetrieve tid rid # CallSleep 250 # ps)"
          using eq ps(1) t1 lt by (simp add: sleep_trace)
        moreover have "usageShape tid rid (6 - i) (CallRetrieve tid rid # CallSleep 250 # ps)"
          using ps(2) lt by simp
        ultimately show ?thesis by blast
      next
        case ge: False
        then have "\<not> Suc i < 6" by simp
        then have "usagePoll c tid rid (Suc i) ?l1 ?w2 = (Exhausted ?l1, w1)"
          using ge by (simp add: usagePoll_done)
        then have "usagePoll c tid rid i lastRun w = (Exhausted ?l1, w1)" using eq by simp
        then show ?thesis using one by (metis snd_conv)
      qed
    qed
  qed
qed

lemma usageShape_retrieves:
  "usageShape tid rid n ps \<Longrightarrow>
     0 < length (filter (\<lambda>k. k = CallRetrieve tid rid) ps) \<and>
     length (filter (\<lambda>k. k = CallRetrieve tid rid) ps) \<le> n"
  by (induction tid rid n ps rule: usageShape.induct) auto

lemma retrieveRunUsageWithRetry_skip:
  "\<not> has_retrieve c \<or> rid = [] \<Longrightarrow> retrieveRunUsageWithRetry c tid rid w = (None, w)"
  by (simp add: retrieveRunUsageWithRetry_def)

lemma retrieveRunUsageWithRetry_trace:
  assumes "has_retrieve c" "rid \<noteq> []"
  shows "\<exists>ps ws. trace (snd (retrieveRunUsageWithRetry c tid rid w)) = trace w @ ps @ ws \<and>
           usageShape tid rid 6 ps \<and> (ws = [] \<or> ws = [WarnUsageMissing tid rid])"
proof -
  obtain ex w1 where u: "usagePoll c tid rid 0 None w = (ex, w1)" by (cases "usagePoll c tid rid 0 None w")
  obtain ps where ps: "trace w1 = trace w @ ps" "usageShape tid rid 6 ps"
    using usagePoll_trace[of 0 c tid rid None w] u by auto
  have "trace (snd (retrieveRunUsageWithRetry c tid rid w)) = trace w1 \<or>
        trace (snd (retrieveRunUsageWithRetry c tid rid w)) = trace w1 @ [WarnUsageMissing tid rid]"
    using assms u by (cases ex) (auto simp: retrieveRunUsageWithRetry_def record_call_def)
  then show ?thesis
  proof
    assume "trace (snd (retrieveRunUsageWithRetry c tid rid w)) = trace w1"
    then have "trace (snd (retrieveRunUsageWithRetry c tid rid w)) = trace w @ ps @ []" using ps by simp
    then show ?thesis using ps(2) by blast
  next
    assume "trace (snd (retrieveRunUsageWithRetry c tid rid w)) = trace w1 @ [WarnUsageMissing tid rid]"
    then have "trace (snd (retrieveRunUsageWithRetry c tid rid w)) = trace w @ ps @ [WarnUsageMissing tid rid]"
      using ps by simp
    then show ?thesis using ps(2) by blast
  qed
qed

lemma handleEvent_no_usage_without_id:
  assumes "event_name ev = ''thread.run.requires_action'' \<or>
           event_name ev = ''thread.run.completed'' \<or>
           event_name ev = ''thread.run.failed'' \<longrightarrow> data_id ev \<noteq> []"
      and "runId st = [] \<longrightarrow> inputTokens st = 0 \<and> outputTokens st = 0"
      and "runId (fst (handleEvent (st, res) ev)) = []"
  shows "inputTokens (fst (handleEvent (st, res) ev)) = 0 \<and>
         outputTokens (fst (handleEvent (st, res) ev)) = 0"
proof -
  have c: "runId (captureRunId st ev) = [] \<Longrightarrow> runId st = []"
    by (auto simp: captureRunId_def split: if_splits)
  have k: "inputTokens (captureRunId st ev) = inputTokens st"
          "outputTokens (captureRunId st ev) = outputTokens st"
    by (simp_all add: captureRunId_def)
  consider (a) "event_name ev = ''thread.run.requires_action'' \<or>
           event_name ev = ''thread.run.completed'' \<or> event_name ev = ''thread.run.failed''"
    | (b) "event_name ev \<noteq> ''thread.run.requires_action''"
          "event_name ev \<noteq> ''thread.run.completed''" "event_name ev \<noteq> ''thread.run.failed''"
    by blast
  then show ?thesis
  proof cases
    case a
    then have "data_id ev \<noteq> []" using assms(1) by blast
    moreover have "runId (fst (handleEvent (st, res) ev)) = data_id ev"
      using a by (auto simp: handleEvent_def Let_def captureUsage_def split: option.splits)
    ultimately show ?thesis using assms(3) by simp
  next
    case b
    have r: "runId (fst (handleEvent (st, res) ev)) = runId (captureRunId st ev)"
      using b by (simp add: handleEvent_def Let_def split: option.splits)
    have t: "inputTokens (fst (handleEvent (st, res) ev)) = inputTokens st"
            "outputTokens (fst (handleEvent (st, res) ev)) = outputTokens st"
      using b k by (simp_all add: handleEvent_def Let_def split: option.splits)
    have "runId st = []" using r assms(3) c by simp
    then show ?thesis using assms(2) t by simp
  qed
qed

lemma foldl_handleEvent_no_usage_without_id:
  assumes "runEventsCarryId evs"
      and "runId (fst sr) = [] \<longrightarrow> inputTokens (fst sr) = 0 \<and> outputTokens (fst sr) = 0"
  shows "runId (fst (foldl handleEvent sr evs)) = [] \<longrightarrow>
         inputTokens (fst (foldl handleEvent sr evs)) = 0 \<and>
         outputTokens (fst (foldl handleEvent sr evs)) = 0"
  using assms
proof (induction evs arbitrary: sr)
  case Nil
  then show ?case by simp
next
  case (Cons ev evs)
  obtain st res where sr: "sr = (st, res)" by (cases sr)
  have wf: "event_name ev = ''thread.run.requires_action'' \<or>
           event_name ev = ''thread.run.completed'' \<or>
           event_name ev = ''thread.run.failed'' \<longrightarrow> data_id ev \<noteq> []"
    and rest: "runEventsCarryId evs"
    using Cons.prems(1) by (simp_all add: runEventsCarryId_def)
  have inv: "runId (fst (handleEvent sr ev)) = [] \<longrightarrow>
         inputTokens (fst (handleEvent sr ev)) = 0 \<and> outputTokens (fst (handleEvent sr ev)) = 0"
    using handleEvent_no_usage_without_id[OF wf, of st res] Cons.prems(2) sr by simp
  show ?case using Cons.IH[OF rest inv] by simp
qed

lemma no_usage_without_id:
  assumes "runEventsCarryId (events stream)" "runId (finalState stream) = []"
  shows "inputTokens (finalState stream) = 0 \<and> outputTokens (finalState stream) = 0"
  using foldl_handleEvent_no_usage_without_id[OF assms(1), of "(stream_init, res_init)"] assms(2)
  by (simp add: finalState_def stream_init_def)

lemma handleStream_tokens:
  "res_inputTokens (fst (handleStream stream res)) = inputTokens (finalState stream) \<and>
   res_outputTokens (fst (handleStream stream res)) = outputTokens (finalState stream)"
  by (cases "fault stream") (simp_all add: handleStream_normal handleStream_fault Let_def)

lemma chatRelay_without_runId:
  assumes "runEventsCarryId (events stream)" "runId (finalState stream) = []"
  shows "chatRelay c tid stream res w =
     (snd (handleStream stream res),
      log_audit (LogRequest tid ''chat'' (toolCallCount (fst (handleStream stream res))) 0 0
                   (statusOf (res_error (fst (handleStream stream res))))
                   (orNull (res_error (fst (handleStream stream res))))) w)"
proof -
  obtain sr res1 where h: "handleStream stream res = (sr, res1)" by (cases "handleStream stream res")
  have rid: "res_runId sr = []" using handleStream_runId[of stream res] h assms(2) by simp
  have tok: "res_inputTokens sr = 0" "res_outputTokens sr = 0"
    using handleStream_tokens[of stream res] no_usage_without_id[OF assms] h by simp_all
  show ?thesis
    using h rid tok by (simp add: chatRelay_def retrieveRunUsageWithRetry_def)
qed

lemma toolRelay_without_runId:
  assumes "runEventsCarryId (events stream)" "runId (finalState stream) = []"
  shows "toolRelay c tid outs stream res w =
     (snd (handleStream stream res),
      log_audit (LogRequest tid ''tool_output'' (length outs) 0 0
                   (statusOf (res_error (fst (handleStream stream res))))
                   (orNull (res_error (fst (handleStream stream res))))) w)"
proof -
  obtain sr res1 where h: "handleStream stream res = (sr, res1)" by (cases "handleStream stream res")
  have rid: "res_runId sr = []" using handleStream_runId[of stream res] h assms(2) by simp
  have tok: "res_inputTokens sr = 0" "res_outputTokens sr = 0"
    using handleStream_tokens[of stream res] no_usage_without_id[OF assms] h by simp_all
  show ?thesis
    using h rid tok by (simp add: toolRelay_def)
qed

lemma usagePoll_returns_usage:
  assumes "i < 6" "call_retrieve c tid rid w = (Inr r, w1)" "run_usage r = Some u"
      and "prompt_tokens u \<noteq> 0 \<or> completion_tokens u \<noteq> 0"
  shows "usagePoll c tid rid i lastRun w =
           (Returned (Some (prompt_tokens u, completion_tokens u)), w1)"
proof -
  have "usageTokens (Some r) = Some (prompt_tokens u, completion_tokens u)"
    using assms(3,4) by (auto simp: usageTokens_def)
  then show ?thesis using usagePoll_step[OF assms(1,2)] by simp
qed

lemma usagePoll_short_circuit:
  assumes "i < 6" "call_retrieve c tid rid w = (Inr r, w1)" "usageTokens (Some r) = None"
      and "isRunActive (run_status r)"
  shows "usagePoll c tid rid i lastRun w = (Returned None, w1)"
proof -
  have "run_status r \<noteq> []" using assms(4) by (auto simp: isRunActive_def)
  then have "stillActive (Some r)" using assms(4) by (simp add: stillActive_def)
  then show ?thesis using usagePoll_step[OF assms(1,2)] assms(3) by simp
qed

lemma retrieveRunUsageWithRetry_returned:
  assumes "has_retrieve c" "rid \<noteq> []" "usagePoll c tid rid 0 None w = (Returned v, w1)"
  shows "retrieveRunUsageWithRetry c tid rid w = (v, w1)"
  using assms by (simp add: retrieveRunUsageWithRetry_def)

lemma cancelCall_not_submit: "cancelCall tid ids k \<Longrightarrow> \<not> isSubmit k \<and> \<not> isCreate k \<and> \<not> isList k"
  by (auto simp: cancelCall_def isSubmit_def isCreate_def isList_def split: call.splits)

lemma list_all_cancelCall_filter:
  assumes "list_all (cancelCall tid ids) cs"
  shows "filter isSubmit cs = [] \<and> filter isCreate cs = [] \<and> filter isList cs = []"
  using assms cancelCall_not_submit by (auto simp: list_all_iff filter_empty_conv)

lemma cancelActiveRuns_quiet:
  "\<exists>ts. trace (snd (cancelActiveRuns c tid ex w)) = trace w @ ts \<and>
        filter isSubmit ts = [] \<and> filter isCreate ts = [] \<and>
        filter isList ts = (if has_list c then [CallList tid 10] else [])"
proof (cases "has_list c")
  case False
  then have "trace (snd (cancelActiveRuns c tid ex w)) = trace w @ []" by (simp add: cancelActiveRuns_def)
  then show ?thesis using False by (metis filter.simps(1))
next
  case True
  obtain got p1 where rl: "runs_list c tid 10 (provider w) = (got, p1)" by (cases "runs_list c tid 10 (provider w)")
  then obtain w1 where l: "call_list c tid 10 w = (got, w1)" by (simp add: call_list_def invoke_def)
  have t1: "trace w1 = trace w @ [CallList tid 10]" using l by (rule call_list_trace)
  have L: "isList (CallList tid 10)" "\<not> isSubmit (CallList tid 10)" "\<not> isCreate (CallList tid 10)"
    by (simp_all add: isList_def isSubmit_def isCreate_def)
  show ?thesis
  proof (cases got)
    case (Inl e)
    then have "trace (snd (cancelActiveRuns c tid ex w)) = trace w @ [CallList tid 10]"
      using True l t1 by (simp add: cancelActiveRuns_def)
    moreover have "filter isSubmit [CallList tid 10] = [] \<and> filter isCreate [CallList tid 10] = [] \<and>
        filter isList [CallList tid 10] = (if has_list c then [CallList tid 10] else [])"
      using True L by simp
    ultimately show ?thesis by blast
  next
    case (Inr data)
    then have eq: "cancelActiveRuns c tid ex w = cancelEach c tid ex data w1"
      using True l by (simp add: cancelActiveRuns_def)
    obtain cs where cs: "trace (snd (cancelEach c tid ex data w1)) = trace w1 @ cs"
       "list_all (cancelCall tid (map run_id (filter (eligible ex) data))) cs"
      using cancelEach_calls[of c tid ex data w1] by blast
    have "trace (snd (cancelActiveRuns c tid ex w)) = trace w @ (CallList tid 10 # cs)"
      using eq cs(1) t1 by simp
    moreover have "filter isSubmit (CallList tid 10 # cs) = [] \<and> filter isCreate (CallList tid 10 # cs) = [] \<and>
        filter isList (CallList tid 10 # cs) = (if has_list c then [CallList tid 10] else [])"
      using True L list_all_cancelCall_filter[OF cs(2)] by simp
    ultimately show ?thesis by blast
  qed
qed

lemma appendMessage_first_ok:
  "call_create c tid msg w = (Inr u, w1) \<Longrightarrow> appendMessage c tid msg w = (Inr (), w1)"
  by (simp add: appendMessage_def)

lemma appendMessage_rethrow:
  "call_create c tid msg w = (Inl e, w1) \<Longrightarrow>
   extractActiveRunIdFromErrorMessage e = None \<or> \<not> has_cancel c \<Longrightarrow>
   appendMessage c tid msg w = (Inl e, w1)"
  by (auto simp: appendMessage_def split: option.splits)

lemma appendMessage_conflict:
  assumes "call_create c tid msg w = (Inl e, w1)"
      and "extractActiveRunIdFromErrorMessage e = Some rid" and "has_cancel c"
  shows "appendMessage c tid msg w =
     (case call_cancel c tid rid w1 of
        (Inl e1, w2) \<Rightarrow> (Inl e1, w2)
      | (Inr u, w2) \<Rightarrow>
          (case cancelActiveRuns c tid None w2 of
             (Inl e2, w3) \<Rightarrow> (Inl e2, w3)
           | (Inr u2, w3) \<Rightarrow> call_create c tid msg w3))"
  using assms by (simp add: appendMessage_def)

lemma appendMessage_conflict_trace:
  assumes "call_create c tid msg w = (Inl e, w1)"
      and "extractActiveRunIdFromErrorMessage e = Some rid" and "has_cancel c"
  shows "\<exists>ts. trace (snd (appendMessage c tid msg w)) =
                trace w @ CallCreateMessage tid msg # CallCancel tid rid # ts \<and>
              length (filter isCreate ts) \<le> 1"
proof -
  have t1: "trace w1 = trace w @ [CallCreateMessage tid msg]" using assms(1) by (rule call_create_trace)
  obtain g w2 where g: "call_cancel c tid rid w1 = (g, w2)" by (cases "call_cancel c tid rid w1")
  have t2: "trace w2 = trace w1 @ [CallCancel tid rid]" using g by (rule call_cancel_trace)
  show ?thesis
  proof (cases g)
    case (Inl e1)
    then have "appendMessage c tid msg w = (Inl e1, w2)"
      using appendMessage_conflict[OF assms] g by simp
    then have "trace (snd (appendMessage c tid msg w)) =
                trace w @ CallCreateMessage tid msg # CallCancel tid rid # [] \<and>
              length (filter isCreate []) \<le> 1" using t1 t2 by simp
    then show ?thesis by blast
  next
    case (Inr u)
    obtain q w3 where q: "cancelActiveRuns c tid None w2 = (q, w3)" by (cases "cancelActiveRuns c tid None w2")
    obtain cs where cs: "trace w3 = trace w2 @ cs" "filter isCreate cs = []"
      using cancelActiveRuns_quiet[of c tid None w2] q by auto
    show ?thesis
    proof (cases q)
      case (Inl e2)
      then have "appendMessage c tid msg w = (Inl e2, w3)"
        using appendMessage_conflict[OF assms] g \<open>g = Inr u\<close> q by simp
      then have "trace (snd (appendMessage c tid msg w)) =
                trace w @ CallCreateMessage tid msg # CallCancel tid rid # cs \<and>
              length (filter isCreate cs) \<le> 1" using t1 t2 cs by simp
      then show ?thesis by blast
    next
      case (Inr u2)
      then have eq: "appendMessage c tid msg w = call_create c tid msg w3"
        using appendMessage_conflict[OF assms] g \<open>g = Inr u\<close> q by simp
      obtain r w4 where r: "call_create c tid msg w3 = (r, w4)" by (cases "call_create c tid msg w3")
      have t4: "trace w4 = trace w3 @ [CallCreateMessage tid msg]" using r by (rule call_create_trace)
      have "trace (snd (appendMessage c tid msg w)) =
                trace w @ CallCreateMessage tid msg # CallCancel tid rid # (cs @ [CallCreateMessage tid msg]) \<and>
              length (filter isCreate (cs @ [CallCreateMessage tid msg])) \<le> 1"
        using eq r t1 t2 t4 cs by (simp add: isCreate_def)
      then show ?thesis by blast
    qed
  qed
qed

lemma appendMessage_at_most_two:
  "\<exists>ts. trace (snd (appendMessage c tid msg w)) = trace w @ ts \<and> length (filter isCreate ts) \<le> 2"
proof -
  obtain r w1 where r: "call_create c tid msg w = (r, w1)" by (cases "call_create c tid msg w")
  have t1: "trace w1 = trace w @ [CallCreateMessage tid msg]" using r by (rule call_create_trace)
  have one: "trace w1 = trace w @ [CallCreateMessage tid msg] \<and>
             length (filter isCreate [CallCreateMessage tid msg]) \<le> 2"
    using t1 by (simp add: isCreate_def)
  show ?thesis
  proof (cases r)
    case (Inr u)
    then have "appendMessage c tid msg w = (Inr (), w1)" using r by (simp add: appendMessage_first_ok)
    then show ?thesis using one by (metis snd_conv)
  next
    case (Inl e)
    show ?thesis
    proof (cases "extractActiveRunIdFromErrorMessage e = None \<or> \<not> has_cancel c")
      case True
      then have "appendMessage c tid msg w = (Inl e, w1)" using r Inl by (simp add: appendMessage_rethrow)
      then show ?thesis using one by (metis snd_conv)
    next
      case False
      then obtain rid where "extractActiveRunIdFromErrorMessage e = Some rid" "has_cancel c" by auto
      from appendMessage_conflict_trace[OF r[unfolded Inl] this]
      obtain ts where "trace (snd (appendMessage c tid msg w)) =
                trace w @ CallCreateMessage tid msg # CallCancel tid rid # ts"
              "length (filter isCreate ts) \<le> 1" by blast
      then have "trace (snd (appendMessage c tid msg w)) =
                trace w @ (CallCreateMessage tid msg # CallCancel tid rid # ts) \<and>
          length (filter isCreate (CallCreateMessage tid msg # CallCancel tid rid # ts)) \<le> 2"
        by (simp add: isCreate_def)
      then show ?thesis by blast
    qed
  qed
qed

lemma chat_append_failure_fatal:
  assumes "chat_threadId req \<noteq> []" "chat_message req \<noteq> []"
      and "activeSessions w (chat_threadId req) = Some s" "userId s = chat_user req"
      and "cancelActiveRuns (client s) (chat_threadId req) None w = (Inr u, w1)"
      and "appendMessage (client s) (chat_threadId req) (chat_message req) w1 = (Inl e, w2)"
  shows "chat req res w =
     (res_end (res_write (FError e) (res_flushHeaders res)),
      log_audit (UpdateSessionStatus (chat_threadId req) ''error'' e)
        (log_audit (LogRequest (chat_threadId req) ''chat'' 0 0 0 ''error'' e) w2))"
  using assms
  by (simp add: chat_def chatRun_def replyError_def res_flushHeaders_def Let_def)

lemmas sim_defs = simClient_def simWorld_def call_list_def call_cancel_def call_retrieve_def
  call_create_def call_stream_def call_submit_def invoke_def record_call_def sleep_def log_audit_def

lemma extract_conflict: "extractActiveRunIdFromErrorMessage conflictError = Some ''run_abc123''"
  by (simp add: extractActiveRunIdFromErrorMessage_def conflictError_def matchHere_def startsWith_def isAlnum_def Let_def)

lemma cancel_scriptB:
  "cancelActiveRuns (simClient scriptB) ''thread_1'' None (simWorld scriptB) =
     (Inr (), (simWorld scriptB)\<lparr>provider := \<lparr>polls = 2, creations = 0\<rparr>,
        trace := [CallList ''thread_1'' 10, CallCancel ''thread_1'' ''run_old'',
                  CallRetrieve ''thread_1'' ''run_old'', CallSleep 250,
                  CallRetrieve ''thread_1'' ''run_old'']\<rparr>)"
  by (simp add: cancelActiveRuns_def sim_defs scriptB_def isRunActive_def cancelledRun_def
       pollCancelled.simps)







lemma newCalls_append: "trace w' = trace w @ ts \<Longrightarrow> newCalls w w' = ts"
  by (simp add: newCalls_def)



lemmas run_defs = chatRun_def toolRun_def cancelActiveRuns_def appendMessage_def chatRelay_def toolRelay_def
  retrieveRunUsageWithRetry_def usagePoll.simps pollCancelled.simps usageTokens_def stillActive_def
  isRunActive_def handleStream_streamA



lemma retrieve_scriptC:
  "call_retrieve (simClient scriptC) ''thread_1'' ''run_1'' (simWorld scriptC) =
     (Inr completedRun, (simWorld scriptC)\<lparr>provider := \<lparr>polls = 1, creations = 0\<rparr>,
         trace := [CallRetrieve ''thread_1'' ''run_1'']\<rparr>)"
  by (simp add: sim_defs scriptC_def)


lemma cancelActiveRuns_cancels_listed:
  assumes "CallCancel t rid \<in> set (newCalls w (snd (cancelActiveRuns c tid ex w)))"
  shows "t = tid \<and> (\<exists>data p1. runs_list c tid 10 (provider w) = (Inr data, p1) \<and>
                      rid \<in> set (map run_id (filter (eligible ex) data)))"
proof -
  obtain ts where ts: "trace (snd (cancelActiveRuns c tid ex w)) = trace w @ ts"
    and sh: "ts = [] \<or>
         (\<exists>got p1. runs_list c tid 10 (provider w) = (got, p1) \<and>
            (case got of
               Inl e \<Rightarrow> ts = [CallList tid 10]
             | Inr data \<Rightarrow> \<exists>cs. ts = CallList tid 10 # cs \<and>
                  list_all (cancelCall tid (map run_id (filter (eligible ex) data))) cs))"
    using cancelActiveRuns_calls[of c tid ex w] by blast
  have mem: "CallCancel t rid \<in> set ts" using assms ts by (simp add: newCalls_append)
  then have "ts \<noteq> []" by auto
  then obtain got p1 where rl: "runs_list c tid 10 (provider w) = (got, p1)"
    and c: "case got of
               Inl e \<Rightarrow> ts = [CallList tid 10]
             | Inr data \<Rightarrow> \<exists>cs. ts = CallList tid 10 # cs \<and>
                  list_all (cancelCall tid (map run_id (filter (eligible ex) data))) cs"
    using sh by blast
  show ?thesis
  proof (cases got)
    case (Inl e)
    then show ?thesis using c mem by simp
  next
    case (Inr data)
    then obtain cs where cs: "ts = CallList tid 10 # cs"
       "list_all (cancelCall tid (map run_id (filter (eligible ex) data))) cs"
      using c by auto
    then have "CallCancel t rid \<in> set cs" using mem by simp
    then have "cancelCall tid (map run_id (filter (eligible ex) data)) (CallCancel t rid)"
      using cs(2) by (simp add: list_all_iff)
    then have "t = tid \<and> rid \<in> set (map run_id (filter (eligible ex) data))"
      by (simp add: cancelCall_def)
    then show ?thesis using rl Inr by blast
  qed
qed

lemma cancelActiveRuns_one_list:
  "filter isList (newCalls w (snd (cancelActiveRuns c tid ex w))) =
     (if has_list c then [CallList tid 10] else [])"
proof -
  obtain ts where "trace (snd (cancelActiveRuns c tid ex w)) = trace w @ ts"
     "filter isList ts = (if has_list c then [CallList tid 10] else [])"
    using cancelActiveRuns_quiet[of c tid ex w] by blast
  then show ?thesis by (simp add: newCalls_append)
qed

lemma retrieve_scriptB:
  "call_retrieve (simClient scriptB) ''thread_1'' ''run_1'' (simWorld scriptB) =
     (Inr \<lparr>run_id = ''run_1'', run_status = ''in_progress'', run_usage = None\<rparr>,
      (simWorld scriptB)\<lparr>provider := \<lparr>polls = 1, creations = 0\<rparr>,
         trace := [CallRetrieve ''thread_1'' ''run_1'']\<rparr>)"
  by (simp add: sim_defs scriptB_def)

lemma finalState_streamAnon: "finalState streamAnon = stream_init"
  by (simp add: finalState_def streamAnon_def handleEvent_def captureRunId_def startsWith_def
        textDelta_def stream_init_def Let_def)

lemma appendMessage_retry_once:
  assumes "call_create c tid msg w = (Inl e, w1)"
      and "extractActiveRunIdFromErrorMessage e = Some rid" and "has_cancel c"
      and "call_cancel c tid rid w1 = (Inr u, w2)"
      and "cancelActiveRuns c tid None w2 = (Inr u2, w3)"
  shows "appendMessage c tid msg w = call_create c tid msg w3 \<and>
         length (filter isCreate (newCalls w (snd (appendMessage c tid msg w)))) = 2"
proof -
  have eq: "appendMessage c tid msg w = call_create c tid msg w3"
    using appendMessage_conflict[OF assms(1-3)] assms(4,5) by simp
  have t1: "trace w1 = trace w @ [CallCreateMessage tid msg]" using assms(1) by (rule call_create_trace)
  have t2: "trace w2 = trace w1 @ [CallCancel tid rid]" using assms(4) by (rule call_cancel_trace)
  obtain cs where cs: "trace w3 = trace w2 @ cs" "filter isCreate cs = []"
    using cancelActiveRuns_quiet[of c tid None w2] assms(5) by auto
  obtain r w4 where r: "call_create c tid msg w3 = (r, w4)" by (cases "call_create c tid msg w3")
  have t4: "trace w4 = trace w3 @ [CallCreateMessage tid msg]" using r by (rule call_create_trace)
  have "trace (snd (appendMessage c tid msg w)) =
          trace w @ (CallCreateMessage tid msg # CallCancel tid rid # cs @ [CallCreateMessage tid msg])"
    using eq r t1 t2 t4 cs(1) by simp
  then have "newCalls w (snd (appendMessage c tid msg w)) =
          CallCreateMessage tid msg # CallCancel tid rid # cs @ [CallCreateMessage tid msg]"
    by (rule newCalls_append)
  then have "length (filter isCreate (newCalls w (snd (appendMessage c tid msg w)))) = 2"
    using cs(2) by (simp add: isCreate_def)
  then show ?thesis using eq by simp
qed

lemma appendMessage_recovery_fails:
  assumes "call_create c tid msg w = (Inl e, w1)"
      and "extractActiveRunIdFromErrorMessage e = Some rid" and "has_cancel c"
      and "call_cancel c tid rid w1 = (Inl e1, w') \<or>
           (\<exists>u w2. call_cancel c tid rid w1 = (Inr u, w2) \<and>
                    cancelActiveRuns c tid None w2 = (Inl e1, w'))"
  shows "appendMessage c tid msg w = (Inl e1, w') \<and>
         length (filter isCreate (newCalls w w')) = 1"
proof -
  have t1: "trace w1 = trace w @ [CallCreateMessage tid msg]" using assms(1) by (rule call_create_trace)
  from assms(4) show ?thesis
  proof
    assume f: "call_cancel c tid rid w1 = (Inl e1, w')"
    have t2: "trace w' = trace w1 @ [CallCancel tid rid]" using f by (rule call_cancel_trace)
    have "newCalls w w' = [CallCreateMessage tid msg, CallCancel tid rid]"
      using t1 t2 by (simp add: newCalls_def)
    then show ?thesis using appendMessage_conflict[OF assms(1-3)] f by (simp add: isCreate_def)
  next
    assume "\<exists>u w2. call_cancel c tid rid w1 = (Inr u, w2) \<and>
                    cancelActiveRuns c tid None w2 = (Inl e1, w')"
    then obtain u w2 where g: "call_cancel c tid rid w1 = (Inr u, w2)"
       and q: "cancelActiveRuns c tid None w2 = (Inl e1, w')" by blast
    have t2: "trace w2 = trace w1 @ [CallCancel tid rid]" using g by (rule call_cancel_trace)
    obtain cs where cs: "trace w' = trace w2 @ cs" "filter isCreate cs = []"
      using cancelActiveRuns_quiet[of c tid None w2] q by auto
    have "newCalls w w' = CallCreateMessage tid msg # CallCancel tid rid # cs"
      using t1 t2 cs(1) by (simp add: newCalls_def)
    then show ?thesis using appendMessage_conflict[OF assms(1-3)] g q cs(2) by (simp add: isCreate_def)
  qed
qed

lemmas script_defs = scriptB_def scriptC_def scriptC2_def scriptGone_def

subsection \<open>The polling loops in closed form\<close>

lemma afterRounds_0: "afterRounds c tid rid 0 w = w"
  by (simp add: afterRounds_def)

lemma afterRounds_Suc: "afterRounds c tid rid (Suc j) w = afterRounds c tid rid j (pollRound c tid rid w)"
  by (simp add: afterRounds_def funpow_swap1)

lemma upt_0_Suc: "[0..<Suc n] = 0 # map Suc [0..<n]"
  by (simp add: upt_conv_Cons map_Suc_upt del: upt_Suc)

lemma count_rounds_Suc:
  "length (takeWhile (\<lambda>j. P (afterRounds c tid rid j w)) [0..<Suc n]) =
     (if P w then Suc (length (takeWhile (\<lambda>j. P (afterRounds c tid rid j (pollRound c tid rid w))) [0..<n]))
      else 0)"
  by (simp only: upt_0_Suc) (simp add: takeWhile_map afterRounds_0 afterRounds_Suc comp_def)

lemma takeWhile_upt_exact:
  assumes "k < n" "\<forall>j<k. Q j" "\<not> Q k"
  shows "length (takeWhile Q [0..<n]) = k"
proof -
  have split: "[0..<n] = [0..<k] @ k # [Suc k..<n]"
    using assms(1) by (metis le_add1 less_imp_add_positive upt_add_eq_append upt_conv_Cons plus_nat.add_0)
  have "takeWhile Q ([0..<k] @ k # [Suc k..<n]) = [0..<k] @ takeWhile Q (k # [Suc k..<n])"
    by (rule takeWhile_append2) (use assms(2) in auto)
  then have "takeWhile Q [0..<n] = [0..<k]" using split assms(3) by simp
  then have "length (takeWhile Q [0..<n]) = length [0..<k]" by (simp only:)
  then show ?thesis by (simp only: length_upt diff_zero)
qed

lemma takeWhile_upt_all:
  assumes "\<forall>j<n. Q j"
  shows "length (takeWhile Q [0..<n]) = n"
proof -
  have "takeWhile Q [0..<n] = [0..<n]"
    by (rule takeWhile_eq_all_conv[THEN iffD2]) (use assms in auto)
  then have "length (takeWhile Q [0..<n]) = length [0..<n]" by (simp only:)
  then show ?thesis by (simp only: length_upt diff_zero)
qed




lemma pollRound_trace:
  "trace (pollRound c tid rid w) = trace w @ [CallRetrieve tid rid, CallSleep 250]"
proof -
  obtain got w1 where got: "call_retrieve c tid rid w = (got, w1)" by (cases "call_retrieve c tid rid w")
  then show ?thesis using call_retrieve_trace[OF got] by (simp add: pollRound_def sleep_trace)
qed

lemma afterRounds_trace:
  "trace (afterRounds c tid rid j w) =
     trace w @ concat (replicate j [CallRetrieve tid rid, CallSleep 250])"
  by (induction j arbitrary: w) (simp_all add: afterRounds_0 afterRounds_Suc pollRound_trace)










lemma pollUsage_spec_1:
  "pollUsage_spec c tid rid (Suc 0) w =
     (if undecided c tid rid w
      then (Exhausted (pollOutcome c tid rid w), snd (call_retrieve c tid rid w))
      else (Returned (usageTokens (pollOutcome c tid rid w)), snd (call_retrieve c tid rid w)))"
  unfolding pollUsage_spec_def count_rounds_Suc
  by (simp add: Let_def afterRounds_0)

lemma pollUsage_spec_Suc:
  "pollUsage_spec c tid rid (Suc (Suc n)) w =
     (if undecided c tid rid w then pollUsage_spec c tid rid (Suc n) (pollRound c tid rid w)
      else (Returned (usageTokens (pollOutcome c tid rid w)), snd (call_retrieve c tid rid w)))"
  unfolding pollUsage_spec_def count_rounds_Suc[of _ _ _ _ _ "Suc n"]
  by (simp add: Let_def afterRounds_0 afterRounds_Suc)

lemma usagePoll_one_step:
  assumes "i < 6"
  shows "usagePoll c tid rid i lastRun w =
     (if undecided c tid rid w
      then usagePoll c tid rid (Suc i) (pollOutcome c tid rid w)
             (if i < 5 then pollRound c tid rid w else snd (call_retrieve c tid rid w))
      else (Returned (usageTokens (pollOutcome c tid rid w)), snd (call_retrieve c tid rid w)))"
proof -
  obtain got w1 where got: "call_retrieve c tid rid w = (got, w1)" by (cases "call_retrieve c tid rid w")
  have po: "pollOutcome c tid rid w = (case got of Inl e \<Rightarrow> None | Inr r \<Rightarrow> Some r)"
    using got by (simp add: pollOutcome_def)
  show ?thesis
    using assms got
    by (cases "usageTokens (pollOutcome c tid rid w)")
       (simp_all add: usagePoll.simps[of c tid rid i lastRun w] undecided_def po[symmetric]
             pollRound_def Let_def)
qed

lemma usagePoll_closed_form:
  "i < 6 \<Longrightarrow> usagePoll c tid rid i lastRun w = pollUsage_spec c tid rid (6 - i) w"
proof (induction "5 - i" arbitrary: i lastRun w)
  case 0
  then have i: "i = 5" by simp
  have "usagePoll c tid rid 6 l v = (Exhausted l, v)" for l v
    by (simp add: usagePoll.simps[of c tid rid 6 l v])
  then show ?case
    using usagePoll_one_step[of 5 c tid rid lastRun w] i by (simp add: pollUsage_spec_1)
next
  case (Suc n)
  then have lt: "i < 5" and n: "n = 5 - Suc i" and d: "6 - i = Suc (Suc n)" by simp_all
  have e: "6 - Suc i = Suc n" using lt n by arith
  have IH: "usagePoll c tid rid (Suc i) l v = pollUsage_spec c tid rid (Suc n) v" for l v
    using Suc.hyps(1)[OF n, of l v] lt unfolding e by simp
  show ?case
    using usagePoll_one_step[of i c tid rid lastRun w] lt d IH
    by (simp add: pollUsage_spec_Suc)
qed

lemma pollUsage_spec_decided:
  assumes "k < n" "\<forall>j<k. undecided c tid rid (afterRounds c tid rid j w)"
      and "\<not> undecided c tid rid (afterRounds c tid rid k w)"
  shows "pollUsage_spec c tid rid n w =
     (Returned (usageTokens (pollOutcome c tid rid (afterRounds c tid rid k w))),
      snd (call_retrieve c tid rid (afterRounds c tid rid k w)))"
proof -
  have "length (takeWhile (\<lambda>j. undecided c tid rid (afterRounds c tid rid j w)) [0..<n]) = k"
    using assms by (intro takeWhile_upt_exact) auto
  then show ?thesis using assms(1) by (simp add: pollUsage_spec_def)
qed

lemma pollUsage_spec_exhausted:
  assumes "\<forall>j<n. undecided c tid rid (afterRounds c tid rid j w)"
  shows "pollUsage_spec c tid rid n w =
     (Exhausted (pollOutcome c tid rid (afterRounds c tid rid (n - 1) w)),
      snd (call_retrieve c tid rid (afterRounds c tid rid (n - 1) w)))"
proof -
  have "length (takeWhile (\<lambda>j. undecided c tid rid (afterRounds c tid rid j w)) [0..<n]) = n"
    using assms by (intro takeWhile_upt_all) auto
  then show ?thesis by (simp add: pollUsage_spec_def)
qed

lemma pollUsage_spec_cases:
  assumes "0 < n"
  shows "(\<exists>k<n. (\<forall>j<k. undecided c tid rid (afterRounds c tid rid j w)) \<and>
               \<not> undecided c tid rid (afterRounds c tid rid k w)) \<or>
         (\<forall>j<n. undecided c tid rid (afterRounds c tid rid j w))"
proof (cases "\<forall>j<n. undecided c tid rid (afterRounds c tid rid j w)")
  case True
  then show ?thesis by blast
next
  case False
  let ?P = "\<lambda>j. j < n \<and> \<not> undecided c tid rid (afterRounds c tid rid j w)"
  from False have ex: "\<exists>j. ?P j" by blast
  define k where "k = (LEAST j. ?P j)"
  have "?P k" unfolding k_def using ex by (rule LeastI_ex)
  moreover have "\<forall>j<k. undecided c tid rid (afterRounds c tid rid j w)"
  proof (intro allI impI)
    fix j assume "j < k"
    then have "\<not> ?P j" unfolding k_def by (rule not_less_Least)
    moreover have "j < n" using \<open>j < k\<close> \<open>?P k\<close> by simp
    ultimately show "undecided c tid rid (afterRounds c tid rid j w)" by blast
  qed
  ultimately show ?thesis by blast
qed

lemma retrieveRunUsageWithRetry_refines:
  assumes "has_retrieve c"
  shows "retrieveRunUsageWithRetry c tid rid w = reconcile_spec c tid rid w"
proof (cases "rid = []")
  case True
  then show ?thesis by (simp add: retrieveRunUsageWithRetry_def reconcile_spec_def)
next
  case False
  have cf: "usagePoll c tid rid 0 None w = pollUsage_spec c tid rid 6 w"
    using usagePoll_closed_form[of 0 c tid rid None w] by simp
  have "(0::nat) < 6" by simp
  from pollUsage_spec_cases[OF this, of c tid rid w] show ?thesis
  proof
    assume "\<exists>k<6. (\<forall>j<k. undecided c tid rid (afterRounds c tid rid j w)) \<and>
               \<not> undecided c tid rid (afterRounds c tid rid k w)"
    then obtain k where k: "k < 6" "\<forall>j<k. undecided c tid rid (afterRounds c tid rid j w)"
       "\<not> undecided c tid rid (afterRounds c tid rid k w)" by blast
    show ?thesis
      using assms False cf pollUsage_spec_decided[OF k]
      by (simp add: retrieveRunUsageWithRetry_def reconcile_spec_def)
  next
    assume a: "\<forall>j<6. undecided c tid rid (afterRounds c tid rid j w)"
    then have "undecided c tid rid (afterRounds c tid rid 5 w)" by simp
    then have "\<not> stillActive (pollOutcome c tid rid (afterRounds c tid rid 5 w))"
      by (simp add: undecided_def)
    then show ?thesis
      using assms False cf pollUsage_spec_exhausted[OF a]
      by (simp add: retrieveRunUsageWithRetry_def reconcile_spec_def)
  qed
qed

lemma reconcile_decided:
  assumes "has_retrieve c" "rid \<noteq> []" "k < 6"
      and "\<forall>j<k. undecided c tid rid (afterRounds c tid rid j w)"
      and "\<not> undecided c tid rid (afterRounds c tid rid k w)"
  shows "retrieveRunUsageWithRetry c tid rid w =
           (usageTokens (pollOutcome c tid rid (afterRounds c tid rid k w)),
            snd (call_retrieve c tid rid (afterRounds c tid rid k w))) \<and>
         newCalls w (snd (call_retrieve c tid rid (afterRounds c tid rid k w))) =
           concat (replicate k [CallRetrieve tid rid, CallSleep 250]) @ [CallRetrieve tid rid]"
proof -
  obtain got w1 where got: "call_retrieve c tid rid (afterRounds c tid rid k w) = (got, w1)"
    by (cases "call_retrieve c tid rid (afterRounds c tid rid k w)")
  have "trace w1 = trace w @ (concat (replicate k [CallRetrieve tid rid, CallSleep 250]) @ [CallRetrieve tid rid])"
    using call_retrieve_trace[OF got] by (simp add: afterRounds_trace)
  then have "newCalls w w1 = concat (replicate k [CallRetrieve tid rid, CallSleep 250]) @ [CallRetrieve tid rid]"
    by (rule newCalls_append)
  moreover have "retrieveRunUsageWithRetry c tid rid w =
           (usageTokens (pollOutcome c tid rid (afterRounds c tid rid k w)), w1)"
    using retrieveRunUsageWithRetry_refines[OF assms(1)] assms(2) pollUsage_spec_decided[OF assms(3-5)] got
    by (simp add: reconcile_spec_def)
  ultimately show ?thesis using got by simp
qed

lemma reconcile_exhausted:
  assumes "has_retrieve c" "rid \<noteq> []"
      and "\<forall>j<6. undecided c tid rid (afterRounds c tid rid j w)"
  shows "retrieveRunUsageWithRetry c tid rid w =
           (None, record_call (WarnUsageMissing tid rid)
                    (snd (call_retrieve c tid rid (afterRounds c tid rid 5 w)))) \<and>
         newCalls w (record_call (WarnUsageMissing tid rid)
                    (snd (call_retrieve c tid rid (afterRounds c tid rid 5 w)))) =
           concat (replicate 5 [CallRetrieve tid rid, CallSleep 250]) @
           [CallRetrieve tid rid, WarnUsageMissing tid rid]"
proof -
  obtain got w1 where got: "call_retrieve c tid rid (afterRounds c tid rid 5 w) = (got, w1)"
    by (cases "call_retrieve c tid rid (afterRounds c tid rid 5 w)")
  have "trace (record_call (WarnUsageMissing tid rid) w1) =
     trace w @ (concat (replicate 5 [CallRetrieve tid rid, CallSleep 250]) @
           [CallRetrieve tid rid, WarnUsageMissing tid rid])"
    using call_retrieve_trace[OF got] by (simp only: afterRounds_trace record_call_def) simp
  then have "newCalls w (record_call (WarnUsageMissing tid rid) w1) =
      concat (replicate 5 [CallRetrieve tid rid, CallSleep 250]) @
           [CallRetrieve tid rid, WarnUsageMissing tid rid]"
    by (rule newCalls_append)
  moreover have "retrieveRunUsageWithRetry c tid rid w =
           (None, record_call (WarnUsageMissing tid rid) w1)"
    using retrieveRunUsageWithRetry_refines[OF assms(1)] assms(2) pollUsage_spec_exhausted[OF assms(3)] got
    by (simp add: reconcile_spec_def)
  ultimately show ?thesis using got by simp
qed


lemma undecidedThrough_iff:
  "undecidedThrough c tid rid k w = (\<forall>j<k. undecided c tid rid (afterRounds c tid rid j w))"
  by (auto simp add: undecidedThrough_def list_all_iff)





lemma reconcile_returns_usage:
  assumes "has_retrieve c" "rid \<noteq> []" "k < 6" "undecidedThrough c tid rid k w"
      and "call_retrieve c tid rid (afterRounds c tid rid k w) = (Inr r, w1)"
      and "run_usage r = Some u" "prompt_tokens u \<noteq> 0 \<or> completion_tokens u \<noteq> 0"
  shows "retrieveRunUsageWithRetry c tid rid w = (Some (prompt_tokens u, completion_tokens u), w1) \<and>
         newCalls w w1 =
           concat (replicate k [CallRetrieve tid rid, CallSleep 250]) @ [CallRetrieve tid rid]"
proof -
  have a: "\<forall>j<k. undecided c tid rid (afterRounds c tid rid j w)"
    using assms(4) by (simp only: undecidedThrough_iff)
  have po: "pollOutcome c tid rid (afterRounds c tid rid k w) = Some r"
    using assms(5) by (simp add: pollOutcome_def)
  have ut: "usageTokens (Some r) = Some (prompt_tokens u, completion_tokens u)"
    using assms(6,7) by (simp add: usageTokens_def)
  have b: "\<not> undecided c tid rid (afterRounds c tid rid k w)"
    by (simp add: undecided_def po ut)
  show ?thesis
    using reconcile_decided[OF assms(1,2,3) a b] by (simp add: po ut assms(5))
qed

lemma reconcile_short_circuit:
  assumes "has_retrieve c" "rid \<noteq> []" "k < 6" "undecidedThrough c tid rid k w"
      and "call_retrieve c tid rid (afterRounds c tid rid k w) = (Inr r, w1)"
      and "usageTokens (Some r) = None" "isRunActive (run_status r)"
  shows "retrieveRunUsageWithRetry c tid rid w = (None, w1) \<and>
         newCalls w w1 =
           concat (replicate k [CallRetrieve tid rid, CallSleep 250]) @ [CallRetrieve tid rid]"
proof -
  have a: "\<forall>j<k. undecided c tid rid (afterRounds c tid rid j w)"
    using assms(4) by (simp only: undecidedThrough_iff)
  have po: "pollOutcome c tid rid (afterRounds c tid rid k w) = Some r"
    using assms(5) by (simp add: pollOutcome_def)
  have "run_status r \<noteq> []" using assms(7) by (auto simp add: isRunActive_def)
  then have sa: "stillActive (Some r)" using assms(7) by (simp add: stillActive_def)
  have b: "\<not> undecided c tid rid (afterRounds c tid rid k w)"
    by (simp add: undecided_def po sa)
  show ?thesis
    using reconcile_decided[OF assms(1,2,3) a b] by (simp add: po assms(5,6))
qed

lemma reconcile_gives_up:
  assumes "has_retrieve c" "rid \<noteq> []" "undecidedThrough c tid rid 6 w"
  shows "retrieveRunUsageWithRetry c tid rid w =
           (None, record_call (WarnUsageMissing tid rid)
                    (snd (call_retrieve c tid rid (afterRounds c tid rid 5 w)))) \<and>
         newCalls w (record_call (WarnUsageMissing tid rid)
                    (snd (call_retrieve c tid rid (afterRounds c tid rid 5 w)))) =
           concat (replicate 5 [CallRetrieve tid rid, CallSleep 250]) @
           [CallRetrieve tid rid, WarnUsageMissing tid rid]"
proof -
  have a: "\<forall>j<6. undecided c tid rid (afterRounds c tid rid j w)"
    using assms(3) by (simp only: undecidedThrough_iff)
  show ?thesis by (rule reconcile_exhausted[OF assms(1,2) a])
qed


lemma never_undecided:
  "undecided (simClient scriptNever) ''thread_1'' ''run_1'' w"
  by (simp add: undecided_def pollOutcome_def sim_defs scriptNever_def scriptC_def doneRun_def
        usageTokens_def stillActive_def isRunActive_def)


lemma afterRounds_Suc_0: "afterRounds c tid rid (Suc 0) w = pollRound c tid rid w"
  by (simp add: afterRounds_def)













lemma scriptLate_undecided_once:
  "undecidedThrough (simClient scriptLate) ''thread_1'' ''run_1'' 1 (simWorld scriptLate)"
  by (simp add: undecidedThrough_def afterRounds_0 undecided_def pollOutcome_def sim_defs
        scriptLate_def scriptC_def usageTokens_def stillActive_def isRunActive_def)

lemma scriptLate_second_poll:
  "call_retrieve (simClient scriptLate) ''thread_1'' ''run_1''
       (afterRounds (simClient scriptLate) ''thread_1'' ''run_1'' 1 (simWorld scriptLate)) =
     (Inr completedRun, lateWorld)"
  by (simp add: afterRounds_Suc_0 pollRound_def sim_defs scriptLate_def scriptC_def lateWorld_def)

lemma scriptNever_undecided:
  "undecidedThrough (simClient scriptNever) ''thread_1'' ''run_1'' 6 (simWorld scriptNever)"
  by (simp only: undecidedThrough_iff) (simp add: never_undecided)

lemma scriptNever_last:
  "record_call (WarnUsageMissing ''thread_1'' ''run_1'')
     (snd (call_retrieve (simClient scriptNever) ''thread_1'' ''run_1''
        (afterRounds (simClient scriptNever) ''thread_1'' ''run_1'' 5 (simWorld scriptNever)))) =
   neverWorld"
  by (simp add: afterRounds_def eval_nat_numeral pollRound_def sim_defs scriptNever_def scriptC_def
        neverWorld_def)



section \<open>Claims about run coordination, usage reconciliation and the handlers\<close>

text \<open>
  Claim C1, as stated: when the append is rejected with a conflict from which a run id
  can be extracted, the coordinator cancels that run, cancels the remaining active runs
  and retries the append exactly once. It fails when the provider refuses the explicit
  cancellation (the run named in the conflict has meanwhile finished): the error of the
  cancel call ends the request, and the append is never retried.
\<close>

theorem conflict_retry_counterexample:
  "fst (call_create (simClient scriptGone) ''thread_1'' ''list files''
          (snd (cancelActiveRuns (simClient scriptGone) ''thread_1'' None (simWorld scriptGone))))
     = Inl conflictError \<and>
   extractActiveRunIdFromErrorMessage conflictError = Some ''run_abc123'' \<and>
   trace (snd (chat chatReq res_init (simWorld scriptGone))) =
     [CallList ''thread_1'' 10, CallCreateMessage ''thread_1'' ''list files'',
      CallCancel ''thread_1'' ''run_abc123''] \<and>
   frames (fst (chat chatReq res_init (simWorld scriptGone))) =
     [FError (Some ''Cannot cancel run with status completed'')]"
  by (simp add: extract_conflict)
     (simp add: chat_def chatReq_def run_defs sim_defs script_defs extract_conflict Let_def
        replyError_def res_flushHeaders_def res_init_def res_write_def res_end_def)

text \<open>
  Claim C1, amended. When the append is rejected and a run id can be extracted from the
  error message (and the client exposes \<open>cancel\<close>), the next call cancels that run;
  at most one further append follows. When that cancellation and the cancellation of the
  active runs that follows both succeed, the append is retried exactly once, and the
  outcome of the retry is the outcome of the whole step. When one of the two
  cancellations throws, its error is the outcome and the append is not retried. In no
  case are more than two appends issued. A failure that leaves this step, the failed
  retry included, is fatal for the request: it is written as an \<open>error\<close> frame, the
  output sequence is ended, and the request and the session are logged with status
  \<open>error\<close>.
\<close>

theorem append_conflict_single_retry:
  "(call_create c tid msg w = (Inl e, w1) \<and> extractActiveRunIdFromErrorMessage e = Some rid \<and>
    has_cancel c \<longrightarrow>
      (\<exists>ts. trace (snd (appendMessage c tid msg w)) =
              trace w @ CallCreateMessage tid msg # CallCancel tid rid # ts \<and>
            length (filter isCreate ts) \<le> 1)) \<and>
   (call_create c tid msg w = (Inl e, w1) \<and> extractActiveRunIdFromErrorMessage e = Some rid \<and>
    has_cancel c \<and> call_cancel c tid rid w1 = (Inr u, w2) \<and>
    cancelActiveRuns c tid None w2 = (Inr u2, w3) \<longrightarrow>
      appendMessage c tid msg w = call_create c tid msg w3 \<and>
      length (filter isCreate (newCalls w (snd (appendMessage c tid msg w)))) = 2) \<and>
   (call_create c tid msg w = (Inl e, w1) \<and> extractActiveRunIdFromErrorMessage e = Some rid \<and>
    has_cancel c \<and>
    (call_cancel c tid rid w1 = (Inl e1, w') \<or>
     (\<exists>u w2. call_cancel c tid rid w1 = (Inr u, w2) \<and>
              cancelActiveRuns c tid None w2 = (Inl e1, w'))) \<longrightarrow>
      appendMessage c tid msg w = (Inl e1, w') \<and>
      length (filter isCreate (newCalls w w')) = 1) \<and>
   (\<exists>ts. trace (snd (appendMessage c tid msg w)) = trace w @ ts \<and>
         length (filter isCreate ts) \<le> 2) \<and>
   (chat_threadId req \<noteq> [] \<and> chat_message req \<noteq> [] \<and>
    activeSessions w0 (chat_threadId req) = Some s \<and> userId s = chat_user req \<and>
    cancelActiveRuns (client s) (chat_threadId req) None w0 = (Inr u0, wa) \<and>
    appendMessage (client s) (chat_threadId req) (chat_message req) wa = (Inl e', wb) \<longrightarrow>
      chat req res w0 =
        (res_end (res_write (FError e') (res_flushHeaders res)),
         log_audit (UpdateSessionStatus (chat_threadId req) ''error'' e')
           (log_audit (LogRequest (chat_threadId req) ''chat'' 0 0 0 ''error'' e') wb)))"
proof (intro conjI impI)
  assume "call_create c tid msg w = (Inl e, w1) \<and> extractActiveRunIdFromErrorMessage e = Some rid \<and>
    has_cancel c"
  then show "\<exists>ts. trace (snd (appendMessage c tid msg w)) =
              trace w @ CallCreateMessage tid msg # CallCancel tid rid # ts \<and>
            length (filter isCreate ts) \<le> 1"
    using appendMessage_conflict_trace by blast
next
  assume a: "call_create c tid msg w = (Inl e, w1) \<and> extractActiveRunIdFromErrorMessage e = Some rid \<and>
    has_cancel c \<and> call_cancel c tid rid w1 = (Inr u, w2) \<and>
    cancelActiveRuns c tid None w2 = (Inr u2, w3)"
  then have r: "appendMessage c tid msg w = call_create c tid msg w3 \<and>
      length (filter isCreate (newCalls w (snd (appendMessage c tid msg w)))) = 2"
    using appendMessage_retry_once[of c tid msg w e w1 rid u w2 u2 w3] by blast
  from r show "appendMessage c tid msg w = call_create c tid msg w3" by blast
  from r show "length (filter isCreate (newCalls w (snd (appendMessage c tid msg w)))) = 2" by blast
next
  assume a: "call_create c tid msg w = (Inl e, w1) \<and> extractActiveRunIdFromErrorMessage e = Some rid \<and>
    has_cancel c \<and>
    (call_cancel c tid rid w1 = (Inl e1, w') \<or>
     (\<exists>u w2. call_cancel c tid rid w1 = (Inr u, w2) \<and>
              cancelActiveRuns c tid None w2 = (Inl e1, w')))"
  then have r: "appendMessage c tid msg w = (Inl e1, w') \<and>
      length (filter isCreate (newCalls w w')) = 1"
    using appendMessage_recovery_fails[of c tid msg w e w1 rid e1 w'] by blast
  from r show "appendMessage c tid msg w = (Inl e1, w')" by blast
  from r show "length (filter isCreate (newCalls w w')) = 1" by blast
next
  show "\<exists>ts. trace (snd (appendMessage c tid msg w)) = trace w @ ts \<and>
         length (filter isCreate ts) \<le> 2"
    by (rule appendMessage_at_most_two)
next
  assume "chat_threadId req \<noteq> [] \<and> chat_message req \<noteq> [] \<and>
    activeSessions w0 (chat_threadId req) = Some s \<and> userId s = chat_user req \<and>
    cancelActiveRuns (client s) (chat_threadId req) None w0 = (Inr u0, wa) \<and>
    appendMessage (client s) (chat_threadId req) (chat_message req) wa = (Inl e', wb)"
  then show "chat req res w0 =
        (res_end (res_write (FError e') (res_flushHeaders res)),
         log_audit (UpdateSessionStatus (chat_threadId req) ''error'' e')
           (log_audit (LogRequest (chat_threadId req) ''chat'' 0 0 0 ''error'' e') wb))"
    using chat_append_failure_fatal by blast
qed

theorem append_conflict_single_retry_witness:
  "extractActiveRunIdFromErrorMessage conflictError = Some ''run_abc123'' \<and>
   has_cancel (simClient scriptC2) \<and>
   fst (call_create (simClient scriptC2) ''thread_1'' ''list files'' (simWorld scriptC2)) = Inl conflictError \<and>
   (\<exists>ts. trace (snd (appendMessage (simClient scriptC2) ''thread_1'' ''list files'' (simWorld scriptC2))) =
           trace (simWorld scriptC2) @
           CallCreateMessage ''thread_1'' ''list files'' # CallCancel ''thread_1'' ''run_abc123'' # ts \<and>
         length (filter isCreate ts) \<le> 1) \<and>
   length (filter isCreate (newCalls (simWorld scriptC2)
      (snd (appendMessage (simClient scriptC2) ''thread_1'' ''list files'' (simWorld scriptC2))))) = 2 \<and>
   fst (appendMessage (simClient scriptC2) ''thread_1'' ''list files'' (simWorld scriptC2)) = Inl conflictError \<and>
   fst (appendMessage (simClient scriptGone) ''thread_1'' ''list files'' (simWorld scriptGone)) =
     Inl (Some ''Cannot cancel run with status completed'') \<and>
   length (filter isCreate (newCalls (simWorld scriptGone)
      (snd (appendMessage (simClient scriptGone) ''thread_1'' ''list files'' (simWorld scriptGone))))) = 1 \<and>
   frames (fst (chat chatReq res_init (simWorld scriptC2))) = [FError conflictError] \<and>
   ended (fst (chat chatReq res_init (simWorld scriptC2))) \<and>
   audit (snd (chat chatReq res_init (simWorld scriptC2))) =
     [LogRequest ''thread_1'' ''chat'' 0 0 0 ''error'' conflictError,
      UpdateSessionStatus ''thread_1'' ''error'' conflictError]"
proof -
  note T = append_conflict_single_retry
  let ?t = "''thread_1''" and ?m = "''list files''" and ?r = "''run_abc123''"
  let ?c = "simClient scriptC2" and ?w = "simWorld scriptC2"
  let ?w1 = "snd (call_create ?c ?t ?m ?w)"
  let ?w2 = "snd (call_cancel ?c ?t ?r ?w1)"
  let ?w3 = "snd (cancelActiveRuns ?c ?t None ?w2)"
  let ?g = "simClient scriptGone" and ?v = "simWorld scriptGone"
  let ?v1 = "snd (call_create ?g ?t ?m ?v)"
  let ?v2 = "snd (call_cancel ?g ?t ?r ?v1)"
  let ?eG = "Some ''Cannot cancel run with status completed''"
  have x: "extractActiveRunIdFromErrorMessage conflictError = Some ?r" by (rule extract_conflict)
  have hc: "has_cancel ?c" "has_cancel ?g" by (simp_all add: simClient_def)
  have c1: "call_create ?c ?t ?m ?w = (Inl conflictError, ?w1)"
    by (simp add: sim_defs script_defs)
  have c2: "call_cancel ?c ?t ?r ?w1 = (Inr (), ?w2)"
    by (simp add: sim_defs script_defs)
  have c3: "cancelActiveRuns ?c ?t None ?w2 = (Inr (), ?w3)"
    by (simp add: cancelActiveRuns_def sim_defs script_defs)
  have c4: "fst (call_create ?c ?t ?m ?w3) = Inl conflictError"
    by (simp add: cancelActiveRuns_def sim_defs script_defs)
  have g1: "call_create ?g ?t ?m ?v = (Inl conflictError, ?v1)"
    by (simp add: sim_defs script_defs)
  have g2: "call_cancel ?g ?t ?r ?v1 = (Inl ?eG, ?v2)"
    by (simp add: sim_defs script_defs)
  from T[of ?c ?t ?m ?w conflictError ?w1 ?r] c1 x hc(1)
  have A: "\<exists>ts. trace (snd (appendMessage ?c ?t ?m ?w)) =
           trace ?w @ CallCreateMessage ?t ?m # CallCancel ?t ?r # ts \<and>
         length (filter isCreate ts) \<le> 1"
    by blast
  from T[of ?c ?t ?m ?w conflictError ?w1 ?r "()" ?w2 "()" ?w3] c1 x hc(1) c2 c3
  have B: "appendMessage ?c ?t ?m ?w = call_create ?c ?t ?m ?w3"
    and B2: "length (filter isCreate (newCalls ?w (snd (appendMessage ?c ?t ?m ?w)))) = 2"
    by blast+
  have B3: "fst (appendMessage ?c ?t ?m ?w) = Inl conflictError"
    using B c4 by simp
  from T[of ?g ?t ?m ?v conflictError ?v1 ?r _ _ _ _ ?eG ?v2] g1 x hc(2) g2
  have C: "appendMessage ?g ?t ?m ?v = (Inl ?eG, ?v2)"
    and C2: "length (filter isCreate (newCalls ?v ?v2)) = 1"
    by blast+
  have C3: "fst (appendMessage ?g ?t ?m ?v) = Inl ?eG" using C by simp
  have C4: "length (filter isCreate (newCalls ?v (snd (appendMessage ?g ?t ?m ?v)))) = 1"
    using C C2 by simp
  let ?wa = "snd (cancelActiveRuns ?c ?t None ?w)"
  let ?wb = "snd (appendMessage ?c ?t ?m ?wa)"
  have f1: "chat_threadId chatReq \<noteq> [] \<and> chat_message chatReq \<noteq> [] \<and>
            chat_threadId chatReq = ?t \<and> chat_message chatReq = ?m"
    by (simp add: chatReq_def)
  have f2: "activeSessions ?w ?t = Some \<lparr>client = ?c, assistantId = ''asst_1'', userId = 7\<rparr>"
    by (simp add: simWorld_def)
  have f3: "chat_user chatReq = 7" by (simp add: chatReq_def)
  have f4: "cancelActiveRuns ?c ?t None ?w = (Inr (), ?wa)"
    by (simp add: cancelActiveRuns_def sim_defs script_defs)
  have f5: "appendMessage ?c ?t ?m ?wa = (Inl conflictError, ?wb)"
    by (simp add: run_defs sim_defs script_defs extract_conflict)
  have f6: "audit ?wb = []"
    by (simp add: run_defs sim_defs script_defs extract_conflict)
  have f7: "chat_threadId chatReq \<noteq> [] \<and> chat_message chatReq \<noteq> [] \<and>
    activeSessions ?w (chat_threadId chatReq) = Some \<lparr>client = ?c, assistantId = ''asst_1'', userId = 7\<rparr> \<and>
    userId \<lparr>client = ?c, assistantId = ''asst_1'', userId = 7\<rparr> = chat_user chatReq \<and>
    cancelActiveRuns (client \<lparr>client = ?c, assistantId = ''asst_1'', userId = 7\<rparr>) (chat_threadId chatReq) None ?w
       = (Inr (), ?wa) \<and>
    appendMessage (client \<lparr>client = ?c, assistantId = ''asst_1'', userId = 7\<rparr>) (chat_threadId chatReq)
       (chat_message chatReq) ?wa = (Inl conflictError, ?wb)"
    using f1 f2 f3 f4 f5 by simp
  note F = T[THEN conjunct2, THEN conjunct2, THEN conjunct2, THEN conjunct2, THEN mp]
  have D0: "chat chatReq res_init ?w =
        (res_end (res_write (FError conflictError) (res_flushHeaders res_init)),
         log_audit (UpdateSessionStatus (chat_threadId chatReq) ''error'' conflictError)
           (log_audit (LogRequest (chat_threadId chatReq) ''chat'' 0 0 0 ''error'' conflictError) ?wb))"
    by (rule F[OF f7])
  have D: "chat chatReq res_init ?w =
        (res_end (res_write (FError conflictError) (res_flushHeaders res_init)),
         log_audit (UpdateSessionStatus ?t ''error'' conflictError)
           (log_audit (LogRequest ?t ''chat'' 0 0 0 ''error'' conflictError) ?wb))"
    using D0 f1 by simp
  have D1: "frames (fst (chat chatReq res_init ?w)) = [FError conflictError]"
    by (simp only: D fst_conv) (simp add: res_end_def res_write_def res_flushHeaders_def res_init_def)
  have D2: "ended (fst (chat chatReq res_init ?w))"
    by (simp only: D fst_conv) (simp add: res_end_def)
  have D3: "audit (snd (chat chatReq res_init ?w)) =
     [LogRequest ?t ''chat'' 0 0 0 ''error'' conflictError,
      UpdateSessionStatus ?t ''error'' conflictError]"
    by (simp only: D snd_conv) (simp add: log_audit_def f6)
  have c1': "fst (call_create ?c ?t ?m ?w) = Inl conflictError" by (metis c1 fst_conv)
  show ?thesis
    using x hc(1) c1' A B2 B3 C3 C4 D1 D2 D3 by blast
qed




text \<open>
  Claim C5. \<open>retrieveRunUsageWithRetry\<close> with a non-empty run id makes between one
  and six retrieve calls, with a pause of 250 ms between two of them, and then at most
  the operator diagnostic. As soon as a poll returns usage with a non-zero token figure
  that usage is returned; as soon as a poll returns no such usage and an active status,
  no usage is returned, without further polls. With an empty run id it returns no usage
  and makes no call (the tool-output handler does not even call it); both handlers then
  log the request with zero input and output tokens, the run-state events of the stream
  carrying their run id as the provider's do.

  The retries are stated of \<open>retrieveRunUsageWithRetry\<close> itself, poll by poll. When
  the first \<open>k\<close> polls (\<open>k < 6\<close>) are undecided, showing neither a non-zero token
  figure nor an active status, and poll \<open>k + 1\<close> shows a non-zero token figure, that
  usage is returned after exactly \<open>k\<close> rounds of retrieve and pause and one more
  retrieve; when poll \<open>k + 1\<close> shows no such figure and an active status, no usage is
  returned after exactly the same calls. When all six polls are undecided, no usage is
  returned after six retrieve calls with five pauses between them and the operator
  diagnostic. Finally \<open>retrieveRunUsageWithRetry\<close> is equal to \<open>reconcile_spec\<close>,
  reconciliation written without loops.
\<close>

theorem usage_reconciliation_bounded:
  "(has_retrieve c \<and> rid \<noteq> [] \<longrightarrow>
      (\<exists>ps ws. trace (snd (retrieveRunUsageWithRetry c tid rid w)) = trace w @ ps @ ws \<and>
               usageShape tid rid 6 ps \<and> (ws = [] \<or> ws = [WarnUsageMissing tid rid]) \<and>
               length (filter (\<lambda>k. k = CallRetrieve tid rid) ps) \<le> 6)) \<and>
   (has_retrieve c \<and> rid \<noteq> [] \<and> usagePoll c tid rid 0 None w = (Returned v, w1) \<longrightarrow>
      retrieveRunUsageWithRetry c tid rid w = (v, w1)) \<and>
   (i < 6 \<and> call_retrieve c tid rid w = (Inr r, w1) \<and> run_usage r = Some u \<and>
    (prompt_tokens u \<noteq> 0 \<or> completion_tokens u \<noteq> 0) \<longrightarrow>
      usagePoll c tid rid i lastRun w =
        (Returned (Some (prompt_tokens u, completion_tokens u)), w1)) \<and>
   (i < 6 \<and> call_retrieve c tid rid w = (Inr r, w1) \<and> usageTokens (Some r) = None \<and>
    isRunActive (run_status r) \<longrightarrow>
      usagePoll c tid rid i lastRun w = (Returned None, w1)) \<and>
   retrieveRunUsageWithRetry c tid [] w = (None, w) \<and>
   (runEventsCarryId (events stream) \<and> runId (finalState stream) = [] \<longrightarrow>
      chatRelay c tid stream res w =
        (snd (handleStream stream res),
         log_audit (LogRequest tid ''chat'' (toolCallCount (fst (handleStream stream res))) 0 0
                      (statusOf (res_error (fst (handleStream stream res))))
                      (orNull (res_error (fst (handleStream stream res))))) w) \<and>
      toolRelay c tid outs stream res w =
        (snd (handleStream stream res),
         log_audit (LogRequest tid ''tool_output'' (length outs) 0 0
                      (statusOf (res_error (fst (handleStream stream res))))
                      (orNull (res_error (fst (handleStream stream res))))) w)) \<and>
   (has_retrieve c \<and> rid \<noteq> [] \<and> k < 6 \<and> undecidedThrough c tid rid k w \<and>
    call_retrieve c tid rid (afterRounds c tid rid k w) = (Inr found, wr) \<and>
    run_usage found = Some uf \<and> (prompt_tokens uf \<noteq> 0 \<or> completion_tokens uf \<noteq> 0) \<longrightarrow>
      retrieveRunUsageWithRetry c tid rid w =
        (Some (prompt_tokens uf, completion_tokens uf), wr) \<and>
      newCalls w wr =
        concat (replicate k [CallRetrieve tid rid, CallSleep 250]) @ [CallRetrieve tid rid]) \<and>
   (has_retrieve c \<and> rid \<noteq> [] \<and> k < 6 \<and> undecidedThrough c tid rid k w \<and>
    call_retrieve c tid rid (afterRounds c tid rid k w) = (Inr found, wr) \<and>
    usageTokens (Some found) = None \<and> isRunActive (run_status found) \<longrightarrow>
      retrieveRunUsageWithRetry c tid rid w = (None, wr) \<and>
      newCalls w wr =
        concat (replicate k [CallRetrieve tid rid, CallSleep 250]) @ [CallRetrieve tid rid]) \<and>
   (has_retrieve c \<and> rid \<noteq> [] \<and> undecidedThrough c tid rid 6 w \<longrightarrow>
      retrieveRunUsageWithRetry c tid rid w =
        (None, record_call (WarnUsageMissing tid rid)
                 (snd (call_retrieve c tid rid (afterRounds c tid rid 5 w)))) \<and>
      newCalls w (record_call (WarnUsageMissing tid rid)
                 (snd (call_retrieve c tid rid (afterRounds c tid rid 5 w)))) =
        concat (replicate 5 [CallRetrieve tid rid, CallSleep 250]) @
        [CallRetrieve tid rid, WarnUsageMissing tid rid]) \<and>
   (has_retrieve c \<longrightarrow>
      retrieveRunUsageWithRetry c tid rid w = reconcile_spec c tid rid w)"
proof (intro conjI impI)
  assume a: "has_retrieve c \<and> rid \<noteq> []"
  then obtain ps ws where s: "trace (snd (retrieveRunUsageWithRetry c tid rid w)) = trace w @ ps @ ws"
      "usageShape tid rid 6 ps" "ws = [] \<or> ws = [WarnUsageMissing tid rid]"
    using retrieveRunUsageWithRetry_trace[of c rid tid w] by blast
  have "length (filter (\<lambda>k. k = CallRetrieve tid rid) ps) \<le> 6"
    using usageShape_retrieves[OF s(2)] by simp
  then show "\<exists>ps ws. trace (snd (retrieveRunUsageWithRetry c tid rid w)) = trace w @ ps @ ws \<and>
               usageShape tid rid 6 ps \<and> (ws = [] \<or> ws = [WarnUsageMissing tid rid]) \<and>
               length (filter (\<lambda>k. k = CallRetrieve tid rid) ps) \<le> 6"
    using s by blast
next
  assume "has_retrieve c \<and> rid \<noteq> [] \<and> usagePoll c tid rid 0 None w = (Returned v, w1)"
  then show "retrieveRunUsageWithRetry c tid rid w = (v, w1)"
    using retrieveRunUsageWithRetry_returned by blast
next
  assume "i < 6 \<and> call_retrieve c tid rid w = (Inr r, w1) \<and> run_usage r = Some u \<and>
    (prompt_tokens u \<noteq> 0 \<or> completion_tokens u \<noteq> 0)"
  then show "usagePoll c tid rid i lastRun w =
        (Returned (Some (prompt_tokens u, completion_tokens u)), w1)"
    using usagePoll_returns_usage by blast
next
  assume "i < 6 \<and> call_retrieve c tid rid w = (Inr r, w1) \<and> usageTokens (Some r) = None \<and>
    isRunActive (run_status r)"
  then show "usagePoll c tid rid i lastRun w = (Returned None, w1)"
    using usagePoll_short_circuit by blast
next
  show "retrieveRunUsageWithRetry c tid [] w = (None, w)"
    by (simp add: retrieveRunUsageWithRetry_skip)
next
  assume a: "runEventsCarryId (events stream) \<and> runId (finalState stream) = []"
  then show "chatRelay c tid stream res w =
        (snd (handleStream stream res),
         log_audit (LogRequest tid ''chat'' (toolCallCount (fst (handleStream stream res))) 0 0
                      (statusOf (res_error (fst (handleStream stream res))))
                      (orNull (res_error (fst (handleStream stream res))))) w)"
    using chatRelay_without_runId by blast
  from a show "toolRelay c tid outs stream res w =
        (snd (handleStream stream res),
         log_audit (LogRequest tid ''tool_output'' (length outs) 0 0
                      (statusOf (res_error (fst (handleStream stream res))))
                      (orNull (res_error (fst (handleStream stream res))))) w)"
    using toolRelay_without_runId by blast
next
  assume a: "has_retrieve c \<and> rid \<noteq> [] \<and> k < 6 \<and> undecidedThrough c tid rid k w \<and>
    call_retrieve c tid rid (afterRounds c tid rid k w) = (Inr found, wr) \<and>
    run_usage found = Some uf \<and> (prompt_tokens uf \<noteq> 0 \<or> completion_tokens uf \<noteq> 0)"
  have b: "retrieveRunUsageWithRetry c tid rid w =
        (Some (prompt_tokens uf, completion_tokens uf), wr) \<and>
      newCalls w wr =
        concat (replicate k [CallRetrieve tid rid, CallSleep 250]) @ [CallRetrieve tid rid]"
    using a reconcile_returns_usage[of c rid k tid w found wr uf] by blast
  from b show "retrieveRunUsageWithRetry c tid rid w =
        (Some (prompt_tokens uf, completion_tokens uf), wr)" by (rule conjunct1)
  from b show "newCalls w wr =
        concat (replicate k [CallRetrieve tid rid, CallSleep 250]) @ [CallRetrieve tid rid]"
    by (rule conjunct2)
next
  assume a: "has_retrieve c \<and> rid \<noteq> [] \<and> k < 6 \<and> undecidedThrough c tid rid k w \<and>
    call_retrieve c tid rid (afterRounds c tid rid k w) = (Inr found, wr) \<and>
    usageTokens (Some found) = None \<and> isRunActive (run_status found)"
  have b: "retrieveRunUsageWithRetry c tid rid w = (None, wr) \<and>
      newCalls w wr =
        concat (replicate k [CallRetrieve tid rid, CallSleep 250]) @ [CallRetrieve tid rid]"
    using a reconcile_short_circuit[of c rid k tid w found wr] by blast
  from b show "retrieveRunUsageWithRetry c tid rid w = (None, wr)" by (rule conjunct1)
  from b show "newCalls w wr =
        concat (replicate k [CallRetrieve tid rid, CallSleep 250]) @ [CallRetrieve tid rid]"
    by (rule conjunct2)
next
  assume a: "has_retrieve c \<and> rid \<noteq> [] \<and> undecidedThrough c tid rid 6 w"
  have b: "retrieveRunUsageWithRetry c tid rid w =
        (None, record_call (WarnUsageMissing tid rid)
                 (snd (call_retrieve c tid rid (afterRounds c tid rid 5 w)))) \<and>
      newCalls w (record_call (WarnUsageMissing tid rid)
                 (snd (call_retrieve c tid rid (afterRounds c tid rid 5 w)))) =
        concat (replicate 5 [CallRetrieve tid rid, CallSleep 250]) @
        [CallRetrieve tid rid, WarnUsageMissing tid rid]"
    using a reconcile_gives_up[of c rid tid w] by blast
  from b show "retrieveRunUsageWithRetry c tid rid w =
        (None, record_call (WarnUsageMissing tid rid)
                 (snd (call_retrieve c tid rid (afterRounds c tid rid 5 w))))" by (rule conjunct1)
  from b show "newCalls w (record_call (WarnUsageMissing tid rid)
                 (snd (call_retrieve c tid rid (afterRounds c tid rid 5 w)))) =
        concat (replicate 5 [CallRetrieve tid rid, CallSleep 250]) @
        [CallRetrieve tid rid, WarnUsageMissing tid rid]" by (rule conjunct2)
next
  assume "has_retrieve c"
  then show "retrieveRunUsageWithRetry c tid rid w = reconcile_spec c tid rid w"
    by (rule retrieveRunUsageWithRetry_refines)
qed

theorem usage_reconciliation_bounded_witness:
  "has_retrieve (simClient scriptC) \<and> ''run_1'' \<noteq> [] \<and>
   (\<exists>ps ws. trace (snd (retrieveRunUsageWithRetry (simClient scriptC) ''thread_1'' ''run_1'' (simWorld scriptC)))
              = trace (simWorld scriptC) @ ps @ ws \<and>
            usageShape ''thread_1'' ''run_1'' 6 ps \<and>
            (ws = [] \<or> ws = [WarnUsageMissing ''thread_1'' ''run_1'']) \<and>
            length (filter (\<lambda>k. k = CallRetrieve ''thread_1'' ''run_1'') ps) \<le> 6) \<and>
   run_usage completedRun = Some \<lparr>prompt_tokens = 120, completion_tokens = 30\<rparr> \<and>
   usagePoll (simClient scriptC) ''thread_1'' ''run_1'' 0 None (simWorld scriptC) =
     (Returned (Some (120, 30)),
      snd (call_retrieve (simClient scriptC) ''thread_1'' ''run_1'' (simWorld scriptC))) \<and>
   retrieveRunUsageWithRetry (simClient scriptC) ''thread_1'' ''run_1'' (simWorld scriptC) =
     (Some (120, 30),
      snd (call_retrieve (simClient scriptC) ''thread_1'' ''run_1'' (simWorld scriptC))) \<and>
   isRunActive ''in_progress'' \<and>
   usagePoll (simClient scriptB) ''thread_1'' ''run_1'' 0 None (simWorld scriptB) =
     (Returned None,
      snd (call_retrieve (simClient scriptB) ''thread_1'' ''run_1'' (simWorld scriptB))) \<and>
   runEventsCarryId (events streamAnon) \<and> runId (finalState streamAnon) = [] \<and>
   chatRelay (simClient scriptB) ''thread_1'' streamAnon res_init (simWorld scriptB) =
     (snd (handleStream streamAnon res_init),
      log_audit (LogRequest ''thread_1'' ''chat''
                   (toolCallCount (fst (handleStream streamAnon res_init))) 0 0
                   (statusOf (res_error (fst (handleStream streamAnon res_init))))
                   (orNull (res_error (fst (handleStream streamAnon res_init)))))
        (simWorld scriptB)) \<and>
   has_retrieve (simClient scriptLate) \<and>
   undecidedThrough (simClient scriptLate) ''thread_1'' ''run_1'' 1 (simWorld scriptLate) \<and>
   call_retrieve (simClient scriptLate) ''thread_1'' ''run_1''
       (afterRounds (simClient scriptLate) ''thread_1'' ''run_1'' 1 (simWorld scriptLate)) =
     (Inr completedRun, lateWorld) \<and>
   retrieveRunUsageWithRetry (simClient scriptLate) ''thread_1'' ''run_1'' (simWorld scriptLate) =
     (Some (120, 30), lateWorld) \<and>
   newCalls (simWorld scriptLate) lateWorld =
     [CallRetrieve ''thread_1'' ''run_1'', CallSleep 250, CallRetrieve ''thread_1'' ''run_1''] \<and>
   has_retrieve (simClient scriptB) \<and>
   undecidedThrough (simClient scriptB) ''thread_1'' ''run_1'' 0 (simWorld scriptB) \<and>
   call_retrieve (simClient scriptB) ''thread_1'' ''run_1''
       (afterRounds (simClient scriptB) ''thread_1'' ''run_1'' 0 (simWorld scriptB)) =
     (Inr \<lparr>run_id = ''run_1'', run_status = ''in_progress'', run_usage = None\<rparr>, activeWorld) \<and>
   retrieveRunUsageWithRetry (simClient scriptB) ''thread_1'' ''run_1'' (simWorld scriptB) =
     (None, activeWorld) \<and>
   newCalls (simWorld scriptB) activeWorld = [CallRetrieve ''thread_1'' ''run_1''] \<and>
   has_retrieve (simClient scriptNever) \<and>
   undecidedThrough (simClient scriptNever) ''thread_1'' ''run_1'' 6 (simWorld scriptNever) \<and>
   retrieveRunUsageWithRetry (simClient scriptNever) ''thread_1'' ''run_1'' (simWorld scriptNever) =
     (None, neverWorld) \<and>
   newCalls (simWorld scriptNever) neverWorld =
     [CallRetrieve ''thread_1'' ''run_1'', CallSleep 250,
      CallRetrieve ''thread_1'' ''run_1'', CallSleep 250,
      CallRetrieve ''thread_1'' ''run_1'', CallSleep 250,
      CallRetrieve ''thread_1'' ''run_1'', CallSleep 250,
      CallRetrieve ''thread_1'' ''run_1'', CallSleep 250,
      CallRetrieve ''thread_1'' ''run_1'', WarnUsageMissing ''thread_1'' ''run_1''] \<and>
   retrieveRunUsageWithRetry (simClient scriptLate) ''thread_1'' ''run_1'' (simWorld scriptLate) =
     reconcile_spec (simClient scriptLate) ''thread_1'' ''run_1'' (simWorld scriptLate)"
proof -
  note T = usage_reconciliation_bounded
  let ?cC = "simClient scriptC" and ?wC = "simWorld scriptC"
  let ?cB = "simClient scriptB" and ?wB = "simWorld scriptB"
  let ?cL = "simClient scriptLate" and ?wL = "simWorld scriptLate"
  let ?cN = "simClient scriptNever" and ?wN = "simWorld scriptNever"
  let ?u = "\<lparr>prompt_tokens = 120, completion_tokens = 30\<rparr>"
  let ?rB = "\<lparr>run_id = ''run_1'', run_status = ''in_progress'', run_usage = None\<rparr>"
  have h1: "has_retrieve ?cC \<and> ''run_1'' \<noteq> []" by (simp add: simClient_def)
  have h2: "call_retrieve ?cC ''thread_1'' ''run_1'' ?wC =
      (Inr completedRun, snd (call_retrieve ?cC ''thread_1'' ''run_1'' ?wC))"
    by (simp only: retrieve_scriptC snd_conv)
  have h3: "run_usage completedRun = Some ?u" by (simp add: completedRun_def)
  have h4: "prompt_tokens ?u \<noteq> 0 \<or> completion_tokens ?u \<noteq> 0" by simp
  have z: "(0::nat) < 6" by simp
  have h5: "call_retrieve ?cB ''thread_1'' ''run_1'' ?wB =
      (Inr ?rB, snd (call_retrieve ?cB ''thread_1'' ''run_1'' ?wB))"
    by (simp only: retrieve_scriptB snd_conv)
  have h6: "usageTokens (Some ?rB) = None" by (simp add: usageTokens_def)
  have h7: "isRunActive (run_status ?rB)" by (simp add: isRunActive_def)
  have h8: "runEventsCarryId (events streamAnon)"
    by (simp add: runEventsCarryId_def streamAnon_def textDelta_def)
  have h9: "runId (finalState streamAnon) = []"
    by (simp only: finalState_streamAnon) (simp add: stream_init_def)
  from T[where c = ?cC and rid = "''run_1''" and tid = "''thread_1''" and w = ?wC,
         THEN conjunct1] h1
  have A: "\<exists>ps ws. trace (snd (retrieveRunUsageWithRetry ?cC ''thread_1'' ''run_1'' ?wC))
              = trace ?wC @ ps @ ws \<and>
            usageShape ''thread_1'' ''run_1'' 6 ps \<and>
            (ws = [] \<or> ws = [WarnUsageMissing ''thread_1'' ''run_1'']) \<and>
            length (filter (\<lambda>k. k = CallRetrieve ''thread_1'' ''run_1'') ps) \<le> 6"
    by blast
  from T[where c = ?cC and rid = "''run_1''" and tid = "''thread_1''" and w = ?wC
           and ?w1.0 = "snd (call_retrieve ?cC ''thread_1'' ''run_1'' ?wC)" and i = 0
           and r = completedRun and u = ?u and lastRun = None,
         THEN conjunct2, THEN conjunct2, THEN conjunct1] h2 h3 h4 z
  have B: "usagePoll ?cC ''thread_1'' ''run_1'' 0 None ?wC =
     (Returned (Some (120, 30)), snd (call_retrieve ?cC ''thread_1'' ''run_1'' ?wC))"
    by simp
  from T[where c = ?cC and rid = "''run_1''" and tid = "''thread_1''" and w = ?wC
           and v = "Some (120, 30)"
           and ?w1.0 = "snd (call_retrieve ?cC ''thread_1'' ''run_1'' ?wC)",
         THEN conjunct2, THEN conjunct1] h1 B
  have B': "retrieveRunUsageWithRetry ?cC ''thread_1'' ''run_1'' ?wC =
     (Some (120, 30), snd (call_retrieve ?cC ''thread_1'' ''run_1'' ?wC))"
    by blast
  from T[where c = ?cB and rid = "''run_1''" and tid = "''thread_1''" and w = ?wB
           and ?w1.0 = "snd (call_retrieve ?cB ''thread_1'' ''run_1'' ?wB)" and i = 0
           and r = ?rB and lastRun = None,
         THEN conjunct2, THEN conjunct2, THEN conjunct2, THEN conjunct1] h5 h6 h7 z
  have C: "usagePoll ?cB ''thread_1'' ''run_1'' 0 None ?wB =
     (Returned None, snd (call_retrieve ?cB ''thread_1'' ''run_1'' ?wB))"
    by blast
  from T[where c = ?cB and tid = "''thread_1''" and w = ?wB and stream = streamAnon
           and res = res_init,
         THEN conjunct2, THEN conjunct2, THEN conjunct2, THEN conjunct2, THEN conjunct2,
         THEN conjunct1] h8 h9
  have D: "chatRelay ?cB ''thread_1'' streamAnon res_init ?wB =
     (snd (handleStream streamAnon res_init),
      log_audit (LogRequest ''thread_1'' ''chat''
                   (toolCallCount (fst (handleStream streamAnon res_init))) 0 0
                   (statusOf (res_error (fst (handleStream streamAnon res_init))))
                   (orNull (res_error (fst (handleStream streamAnon res_init))))) ?wB)"
    by blast
  have h7': "isRunActive ''in_progress''" by (simp add: isRunActive_def)
  have old: "has_retrieve ?cC \<and> ''run_1'' \<noteq> [] \<and>
   (\<exists>ps ws. trace (snd (retrieveRunUsageWithRetry ?cC ''thread_1'' ''run_1'' ?wC))
              = trace ?wC @ ps @ ws \<and>
            usageShape ''thread_1'' ''run_1'' 6 ps \<and>
            (ws = [] \<or> ws = [WarnUsageMissing ''thread_1'' ''run_1'']) \<and>
            length (filter (\<lambda>k. k = CallRetrieve ''thread_1'' ''run_1'') ps) \<le> 6) \<and>
   run_usage completedRun = Some ?u \<and>
   usagePoll ?cC ''thread_1'' ''run_1'' 0 None ?wC =
     (Returned (Some (120, 30)), snd (call_retrieve ?cC ''thread_1'' ''run_1'' ?wC)) \<and>
   retrieveRunUsageWithRetry ?cC ''thread_1'' ''run_1'' ?wC =
     (Some (120, 30), snd (call_retrieve ?cC ''thread_1'' ''run_1'' ?wC)) \<and>
   isRunActive ''in_progress'' \<and>
   usagePoll ?cB ''thread_1'' ''run_1'' 0 None ?wB =
     (Returned None, snd (call_retrieve ?cB ''thread_1'' ''run_1'' ?wB)) \<and>
   runEventsCarryId (events streamAnon) \<and> runId (finalState streamAnon) = [] \<and>
   chatRelay ?cB ''thread_1'' streamAnon res_init ?wB =
     (snd (handleStream streamAnon res_init),
      log_audit (LogRequest ''thread_1'' ''chat''
                   (toolCallCount (fst (handleStream streamAnon res_init))) 0 0
                   (statusOf (res_error (fst (handleStream streamAnon res_init))))
                   (orNull (res_error (fst (handleStream streamAnon res_init))))) ?wB)"
    using h1 A h3 B B' h7' C h8 h9 D by blast
  have g1L: "has_retrieve ?cL \<and> ''run_1'' \<noteq> []" by (simp add: simClient_def)
  have g1B: "has_retrieve ?cB \<and> ''run_1'' \<noteq> []" by (simp add: simClient_def)
  have g1N: "has_retrieve ?cN \<and> ''run_1'' \<noteq> []" by (simp add: simClient_def)
  have one: "(1::nat) < 6" by simp
  from T[where c = ?cL and rid = "''run_1''" and tid = "''thread_1''" and w = ?wL and k = 1
           and found = completedRun and wr = lateWorld and uf = ?u,
         THEN conjunct2, THEN conjunct2, THEN conjunct2, THEN conjunct2, THEN conjunct2,
         THEN conjunct2, THEN conjunct1]
    g1L one scriptLate_undecided_once scriptLate_second_poll h3 h4
  have J0: "retrieveRunUsageWithRetry ?cL ''thread_1'' ''run_1'' ?wL =
        (Some (prompt_tokens ?u, completion_tokens ?u), lateWorld) \<and>
      newCalls ?wL lateWorld =
        concat (replicate 1 [CallRetrieve ''thread_1'' ''run_1'', CallSleep 250]) @
        [CallRetrieve ''thread_1'' ''run_1'']"
    by blast
  have J: "retrieveRunUsageWithRetry ?cL ''thread_1'' ''run_1'' ?wL = (Some (120, 30), lateWorld) \<and>
      newCalls ?wL lateWorld =
        [CallRetrieve ''thread_1'' ''run_1'', CallSleep 250, CallRetrieve ''thread_1'' ''run_1'']"
    using J0 by simp
  have k0: "undecidedThrough ?cB ''thread_1'' ''run_1'' 0 ?wB" by (simp add: undecidedThrough_def)
  have k1: "call_retrieve ?cB ''thread_1'' ''run_1'' (afterRounds ?cB ''thread_1'' ''run_1'' 0 ?wB) =
     (Inr ?rB, activeWorld)"
    by (simp only: afterRounds_0 retrieve_scriptB activeWorld_def)
  from T[where c = ?cB and rid = "''run_1''" and tid = "''thread_1''" and w = ?wB and k = 0
           and found = ?rB and wr = activeWorld,
         THEN conjunct2, THEN conjunct2, THEN conjunct2, THEN conjunct2, THEN conjunct2,
         THEN conjunct2, THEN conjunct2, THEN conjunct1]
    g1B z k0 k1 h6 h7
  have K0: "retrieveRunUsageWithRetry ?cB ''thread_1'' ''run_1'' ?wB = (None, activeWorld) \<and>
      newCalls ?wB activeWorld =
        concat (replicate 0 [CallRetrieve ''thread_1'' ''run_1'', CallSleep 250]) @
        [CallRetrieve ''thread_1'' ''run_1'']"
    by blast
  have K: "retrieveRunUsageWithRetry ?cB ''thread_1'' ''run_1'' ?wB = (None, activeWorld) \<and>
      newCalls ?wB activeWorld = [CallRetrieve ''thread_1'' ''run_1'']"
    using K0 by simp
  from T[where c = ?cN and rid = "''run_1''" and tid = "''thread_1''" and w = ?wN,
         THEN conjunct2, THEN conjunct2, THEN conjunct2, THEN conjunct2, THEN conjunct2,
         THEN conjunct2, THEN conjunct2, THEN conjunct2, THEN conjunct1]
    g1N scriptNever_undecided
  have L0: "retrieveRunUsageWithRetry ?cN ''thread_1'' ''run_1'' ?wN =
        (None, record_call (WarnUsageMissing ''thread_1'' ''run_1'')
                 (snd (call_retrieve ?cN ''thread_1'' ''run_1'' (afterRounds ?cN ''thread_1'' ''run_1'' 5 ?wN)))) \<and>
      newCalls ?wN (record_call (WarnUsageMissing ''thread_1'' ''run_1'')
                 (snd (call_retrieve ?cN ''thread_1'' ''run_1'' (afterRounds ?cN ''thread_1'' ''run_1'' 5 ?wN)))) =
        concat (replicate 5 [CallRetrieve ''thread_1'' ''run_1'', CallSleep 250]) @
        [CallRetrieve ''thread_1'' ''run_1'', WarnUsageMissing ''thread_1'' ''run_1'']"
    by blast
  have L: "retrieveRunUsageWithRetry ?cN ''thread_1'' ''run_1'' ?wN = (None, neverWorld) \<and>
      newCalls ?wN neverWorld =
     [CallRetrieve ''thread_1'' ''run_1'', CallSleep 250,
      CallRetrieve ''thread_1'' ''run_1'', CallSleep 250,
      CallRetrieve ''thread_1'' ''run_1'', CallSleep 250,
      CallRetrieve ''thread_1'' ''run_1'', CallSleep 250,
      CallRetrieve ''thread_1'' ''run_1'', CallSleep 250,
      CallRetrieve ''thread_1'' ''run_1'', WarnUsageMissing ''thread_1'' ''run_1'']"
    using L0 by (simp only: scriptNever_last) (simp add: eval_nat_numeral)
  from T[where c = ?cL and rid = "''run_1''" and tid = "''thread_1''" and w = ?wL,
         THEN conjunct2, THEN conjunct2, THEN conjunct2, THEN conjunct2, THEN conjunct2,
         THEN conjunct2, THEN conjunct2, THEN conjunct2, THEN conjunct2] g1L
  have M: "retrieveRunUsageWithRetry ?cL ''thread_1'' ''run_1'' ?wL =
     reconcile_spec ?cL ''thread_1'' ''run_1'' ?wL"
    by blast
  have new: "has_retrieve ?cL \<and>
   undecidedThrough ?cL ''thread_1'' ''run_1'' 1 ?wL \<and>
   call_retrieve ?cL ''thread_1'' ''run_1'' (afterRounds ?cL ''thread_1'' ''run_1'' 1 ?wL) =
     (Inr completedRun, lateWorld) \<and>
   retrieveRunUsageWithRetry ?cL ''thread_1'' ''run_1'' ?wL = (Some (120, 30), lateWorld) \<and>
   newCalls ?wL lateWorld =
     [CallRetrieve ''thread_1'' ''run_1'', CallSleep 250, CallRetrieve ''thread_1'' ''run_1''] \<and>
   has_retrieve ?cB \<and>
   undecidedThrough ?cB ''thread_1'' ''run_1'' 0 ?wB \<and>
   call_retrieve ?cB ''thread_1'' ''run_1'' (afterRounds ?cB ''thread_1'' ''run_1'' 0 ?wB) =
     (Inr ?rB, activeWorld) \<and>
   retrieveRunUsageWithRetry ?cB ''thread_1'' ''run_1'' ?wB = (None, activeWorld) \<and>
   newCalls ?wB activeWorld = [CallRetrieve ''thread_1'' ''run_1''] \<and>
   has_retrieve ?cN \<and>
   undecidedThrough ?cN ''thread_1'' ''run_1'' 6 ?wN \<and>
   retrieveRunUsageWithRetry ?cN ''thread_1'' ''run_1'' ?wN = (None, neverWorld) \<and>
   newCalls ?wN neverWorld =
     [CallRetrieve ''thread_1'' ''run_1'', CallSleep 250,
      CallRetrieve ''thread_1'' ''run_1'', CallSleep 250,
      CallRetrieve ''thread_1'' ''run_1'', CallSleep 250,
      CallRetrieve ''thread_1'' ''run_1'', CallSleep 250,
      CallRetrieve ''thread_1'' ''run_1'', CallSleep 250,
      CallRetrieve ''thread_1'' ''run_1'', WarnUsageMissing ''thread_1'' ''run_1''] \<and>
   retrieveRunUsageWithRetry ?cL ''thread_1'' ''run_1'' ?wL =
     reconcile_spec ?cL ''thread_1'' ''run_1'' ?wL"
    using g1L scriptLate_undecided_once scriptLate_second_poll J g1B k0 k1 K g1N
      scriptNever_undecided L M
    by blast
  show ?thesis
    by (intro conjI) (insert old new, blast)+
qed

text \<open>
  Claim C8, as stated: every operation keyed by the session key answers a caller who is
  not the owner with \<open>Unauthorized\<close>. It fails for the deletion of a session: the
  session of user 7 exists, and user 8 is answered 404 \<open>Session not found\<close>.
\<close>

theorem foreign_session_counterexample:
  "map_option userId (activeSessions (simWorld scriptB) ''thread_1'') = Some 7 \<and>
   statusCode (fst (deleteSession 8 ''thread_1'' res_init (simWorld scriptB))) = 404 \<and>
   jsonBody (fst (deleteSession 8 ''thread_1'' res_init (simWorld scriptB))) =
     Some (ErrorReply ''Session not found'' None)"
  by (simp add: deleteSession_def simWorld_def res_json_def res_init_def)

text \<open>
  Claim C8, amended. When the session exists and belongs to another user, the chat and
  the tool-output operation (their required fields present) answer 403
  \<open>UNAUTHORIZED\<close>, and the deletion answers 404 \<open>Session not found\<close> and leaves
  the session in place. In all three the answer is a JSON reply on the untouched
  response: no frame is written, and the world is unchanged, so no provider call has
  been made and nothing is logged.
\<close>

theorem foreign_session_rejected_synchronously:
  "(chat_threadId req \<noteq> [] \<and> chat_message req \<noteq> [] \<and>
    activeSessions w (chat_threadId req) = Some s \<and> userId s \<noteq> chat_user req \<longrightarrow>
      chat req res w =
        (res_json 403 (ErrorReply ''UNAUTHORIZED''
           (Some ''Not authorized to access this session'')) res, w)) \<and>
   (tool_threadId treq \<noteq> [] \<and> tool_runId treq \<noteq> [] \<and> tool_outputs treq = Some outs \<and>
    activeSessions w (tool_threadId treq) = Some s \<and> userId s \<noteq> tool_user treq \<longrightarrow>
      toolOutputs treq res w = (res_json 403 (ErrorReply ''UNAUTHORIZED'' None) res, w)) \<and>
   (activeSessions w tid = Some s \<and> userId s \<noteq> uid \<longrightarrow>
      deleteSession uid tid res w =
        (res_json 404 (ErrorReply ''Session not found'' None) res, w)) \<and>
   frames (res_json code body res) = frames res \<and>
   statusCode (res_json code body res) = code \<and>
   jsonBody (res_json code body res) = Some body \<and>
   ended (res_json code body res)"
  by (simp add: chat_def toolOutputs_def deleteSession_def res_json_def Let_def)

theorem foreign_session_rejected_synchronously_witness:
  "activeSessions (simWorld scriptB) ''thread_1'' =
     Some \<lparr>client = simClient scriptB, assistantId = ''asst_1'', userId = 7\<rparr> \<and>
   chat (chatReq\<lparr>chat_user := 8\<rparr>) res_init (simWorld scriptB) =
     (res_json 403 (ErrorReply ''UNAUTHORIZED''
        (Some ''Not authorized to access this session'')) res_init, simWorld scriptB) \<and>
   toolOutputs (toolReq\<lparr>tool_user := 8\<rparr>) res_init (simWorld scriptB) =
     (res_json 403 (ErrorReply ''UNAUTHORIZED'' None) res_init, simWorld scriptB) \<and>
   deleteSession 8 ''thread_1'' res_init (simWorld scriptB) =
     (res_json 404 (ErrorReply ''Session not found'' None) res_init, simWorld scriptB) \<and>
   frames (res_json 403 (ErrorReply ''UNAUTHORIZED'' None) res_init) = []"
proof -
  note T = foreign_session_rejected_synchronously
  let ?w = "simWorld scriptB"
  let ?s = "\<lparr>client = simClient scriptB, assistantId = ''asst_1'', userId = 7\<rparr>"
  let ?creq = "chatReq\<lparr>chat_user := 8\<rparr>" and ?treq = "toolReq\<lparr>tool_user := 8\<rparr>"
  have s: "activeSessions ?w ''thread_1'' = Some ?s" by (simp add: simWorld_def)
  have a: "chat_threadId ?creq = ''thread_1'' \<and> chat_threadId ?creq \<noteq> [] \<and> chat_message ?creq \<noteq> [] \<and>
           userId ?s \<noteq> chat_user ?creq"
    by (simp add: chatReq_def)
  have b: "tool_threadId ?treq = ''thread_1'' \<and> tool_threadId ?treq \<noteq> [] \<and> tool_runId ?treq \<noteq> [] \<and>
           tool_outputs ?treq = Some [(''call_1'', ''ok'')] \<and> userId ?s \<noteq> tool_user ?treq"
    by (simp add: toolReq_def)
  have c: "userId ?s \<noteq> 8" by simp
  from T[of ?creq ?w ?s res_init] s a
  have A: "chat ?creq res_init ?w =
     (res_json 403 (ErrorReply ''UNAUTHORIZED''
        (Some ''Not authorized to access this session'')) res_init, ?w)"
    by simp
  from T[of _ ?w ?s res_init ?treq "[(''call_1'', ''ok'')]"] s b
  have B: "toolOutputs ?treq res_init ?w = (res_json 403 (ErrorReply ''UNAUTHORIZED'' None) res_init, ?w)"
    by simp
  from T[of _ ?w ?s res_init _ _ "''thread_1''" 8] s c
  have C: "deleteSession 8 ''thread_1'' res_init ?w =
     (res_json 404 (ErrorReply ''Session not found'' None) res_init, ?w)"
    by simp
  from T[of _ _ _ res_init _ _ _ _ 403 "ErrorReply ''UNAUTHORIZED'' None"]
  have "frames (res_json 403 (ErrorReply ''UNAUTHORIZED'' None) res_init) = frames res_init"
    by blast
  then have D: "frames (res_json 403 (ErrorReply ''UNAUTHORIZED'' None) res_init) = []"
    by (simp add: res_init_def)
  show ?thesis using s A B C D by blast
qed

text \<open>
  Claim C10. \<open>cancelActiveRuns\<close> makes one list call, with limit 10 (none when the
  client has no \<open>list\<close>), and every cancel call it makes is for a run of that
  listing: a run that the provider did not return in it is never cancelled, active or
  not.
\<close>

theorem cancellation_limited_to_listed_runs:
  "filter isList (newCalls w (snd (cancelActiveRuns c tid ex w))) =
     (if has_list c then [CallList tid 10] else []) \<and>
   (\<forall>t rid. CallCancel t rid \<in> set (newCalls w (snd (cancelActiveRuns c tid ex w))) \<longrightarrow>
      t = tid \<and> (\<exists>data p1. runs_list c tid 10 (provider w) = (Inr data, p1) \<and>
                       rid \<in> set (map run_id (filter (eligible ex) data)))) \<and>
   (runs_list c tid 10 (provider w) = (Inr data, p1) \<and> rid \<notin> set (map run_id data) \<longrightarrow>
      CallCancel tid rid \<notin> set (newCalls w (snd (cancelActiveRuns c tid ex w))))"
proof (intro conjI allI impI)
  show "filter isList (newCalls w (snd (cancelActiveRuns c tid ex w))) =
     (if has_list c then [CallList tid 10] else [])"
    by (rule cancelActiveRuns_one_list)
next
  fix t rid
  assume "CallCancel t rid \<in> set (newCalls w (snd (cancelActiveRuns c tid ex w)))"
  then show "t = tid" and "\<exists>data p1. runs_list c tid 10 (provider w) = (Inr data, p1) \<and>
                       rid \<in> set (map run_id (filter (eligible ex) data))"
    using cancelActiveRuns_cancels_listed by blast+
next
  assume a: "runs_list c tid 10 (provider w) = (Inr data, p1) \<and> rid \<notin> set (map run_id data)"
  show "CallCancel tid rid \<notin> set (newCalls w (snd (cancelActiveRuns c tid ex w)))"
  proof
    assume "CallCancel tid rid \<in> set (newCalls w (snd (cancelActiveRuns c tid ex w)))"
    then obtain data' p1' where "runs_list c tid 10 (provider w) = (Inr data', p1')"
       "rid \<in> set (map run_id (filter (eligible ex) data'))"
      using cancelActiveRuns_cancels_listed by blast
    then show False using a by auto
  qed
qed

theorem cancellation_limited_to_listed_runs_witness:
  "CallCancel ''thread_1'' ''run_old'' \<in>
     set (newCalls (simWorld scriptB)
            (snd (cancelActiveRuns (simClient scriptB) ''thread_1'' None (simWorld scriptB)))) \<and>
   (\<exists>data p1. runs_list (simClient scriptB) ''thread_1'' 10 (provider (simWorld scriptB)) = (Inr data, p1) \<and>
       ''run_old'' \<in> set (map run_id (filter (eligible None) data))) \<and>
   runs_list (simClient scriptMany) ''thread_1'' 10 (provider (simWorld scriptMany)) =
     (Inr (replicate 10 doneRun), provider (simWorld scriptMany)) \<and>
   ''run_11'' \<in> set (map run_id (sc_runs scriptMany)) \<and>
   ''run_11'' \<notin> set (map run_id (replicate 10 doneRun)) \<and>
   CallCancel ''thread_1'' ''run_11'' \<notin>
     set (newCalls (simWorld scriptMany)
            (snd (cancelActiveRuns (simClient scriptMany) ''thread_1'' None (simWorld scriptMany)))) \<and>
   filter isList (newCalls (simWorld scriptMany)
            (snd (cancelActiveRuns (simClient scriptMany) ''thread_1'' None (simWorld scriptMany)))) =
     [CallList ''thread_1'' 10]"
proof -
  note T = cancellation_limited_to_listed_runs
  have h1: "CallCancel ''thread_1'' ''run_old'' \<in>
     set (newCalls (simWorld scriptB)
            (snd (cancelActiveRuns (simClient scriptB) ''thread_1'' None (simWorld scriptB))))"
    by (simp only: cancel_scriptB snd_conv newCalls_def) (simp add: simWorld_def)
  have h2: "runs_list (simClient scriptMany) ''thread_1'' 10 (provider (simWorld scriptMany)) =
     (Inr (replicate 10 doneRun), provider (simWorld scriptMany))"
    by (simp add: simClient_def scriptMany_def)
  have h3: "''run_11'' \<notin> set (map run_id (replicate 10 doneRun))"
    by (simp add: doneRun_def)
  have h4: "''run_11'' \<in> set (map run_id (sc_runs scriptMany))"
    by (simp add: scriptMany_def)
  have h5: "has_list (simClient scriptMany)" by (simp add: simClient_def)
  from T[of "simWorld scriptB" "simClient scriptB" "''thread_1''" None] h1
  have A: "\<exists>data p1. runs_list (simClient scriptB) ''thread_1'' 10 (provider (simWorld scriptB)) = (Inr data, p1) \<and>
       ''run_old'' \<in> set (map run_id (filter (eligible None) data))"
    by blast
  from T[of "simWorld scriptMany" "simClient scriptMany" "''thread_1''" None
            "replicate 10 doneRun" "provider (simWorld scriptMany)" "''run_11''"] h2 h3 h5
  have B: "CallCancel ''thread_1'' ''run_11'' \<notin>
     set (newCalls (simWorld scriptMany)
            (snd (cancelActiveRuns (simClient scriptMany) ''thread_1'' None (simWorld scriptMany))))"
    and C: "filter isList (newCalls (simWorld scriptMany)
            (snd (cancelActiveRuns (simClient scriptMany) ''thread_1'' None (simWorld scriptMany)))) =
     [CallList ''thread_1'' 10]"
    by simp_all
  show ?thesis using h1 A h2 h4 h3 B C by blast
qed

end
